theory Spec2Isabelle
  imports Complex_Main "HOL-Library.Word"
begin

unbundle bit_operations_syntax

section \<open>ObjectPool (src/core/ObjectPool.js)\<close>

text \<open>
  Pooled objects are JavaScript object references; the model keeps them as values of an
  arbitrary type \<open>'a\<close> compared by identity. \<open>available\<close> is the JavaScript array used
  as a stack (\<open>push\<close> appends at the end, \<open>pop\<close> removes the end). \<open>inUse\<close> is the
  JavaScript \<open>Set\<close>, kept as the list of its members in insertion order, which is the order
  \<open>forEach\<close> and spreading visit them in. The factory \<open>createFn\<close> is a stateful
  JavaScript closure: \<open>createFn i\<close> is the object its call number \<open>i\<close> returns and
  \<open>created\<close> counts the calls made so far. Console warnings, calls of the reset hook and
  disposal calls are returned as a list of effects.
\<close>

record 'a ObjectPool =
  available :: "'a list"
  inUse :: "'a list"
  created :: nat

datatype 'a effect = Warn string | Reset 'a | Disposed 'a

record pool_stats =
  stats_available :: nat
  stats_inUse :: nat
  stats_total :: nat

text \<open>\<open>Set.prototype.add\<close> and \<open>Set.prototype.delete\<close> on the insertion-ordered list.\<close>

definition set_add :: "'a \<Rightarrow> 'a list \<Rightarrow> 'a list" where
  "set_add x xs = (if x \<in> set xs then xs else xs @ [x])"

definition set_delete :: "'a \<Rightarrow> 'a list \<Rightarrow> 'a list" where
  "set_delete x xs = removeAll x xs"

text \<open>The constructor pre-populates \<open>available\<close> with \<open>initialSize\<close> factory results.\<close>

definition newObjectPool :: "(nat \<Rightarrow> 'a) \<Rightarrow> nat \<Rightarrow> 'a ObjectPool" where
  "newObjectPool createFn initialSize =
     \<lparr>available = map createFn [0..<initialSize], inUse = [], created = initialSize\<rparr>"

definition acquire :: "(nat \<Rightarrow> 'a) \<Rightarrow> 'a ObjectPool \<Rightarrow> 'a \<times> 'a ObjectPool" where
  "acquire createFn p =
     (if length (available p) > 0
      then (let obj = last (available p)
            in (obj, p\<lparr>available := butlast (available p), inUse := set_add obj (inUse p)\<rparr>))
      else (let obj = createFn (created p)
            in (obj, p\<lparr>inUse := set_add obj (inUse p), created := Suc (created p)\<rparr>)))"

text \<open>\<open>hasResetFn\<close> says whether a reset function was given to the constructor.\<close>

definition release :: "bool \<Rightarrow> 'a ObjectPool \<Rightarrow> 'a \<Rightarrow> 'a ObjectPool \<times> 'a effect list" where
  "release hasResetFn p obj =
     (if obj \<notin> set (inUse p)
      then (p, [Warn ''ObjectPool: Attempted to release an object not in use''])
      else (p\<lparr>inUse := set_delete obj (inUse p), available := available p @ [obj]\<rparr>,
            if hasResetFn then [Reset obj] else []))"

definition releaseAll :: "bool \<Rightarrow> 'a ObjectPool \<Rightarrow> 'a ObjectPool \<times> 'a effect list" where
  "releaseAll hasResetFn p =
     (p\<lparr>available := available p @ inUse p, inUse := []\<rparr>,
      if hasResetFn then map Reset (inUse p) else [])"

text \<open>
  \<open>dispose\<close> runs the disposal dispatch (the given hook, the object's own \<open>dispose\<close>, or
  the default mesh teardown) on every object of \<open>[...available, ...inUse]\<close> and empties both
  containers.
\<close>

definition dispose :: "'a ObjectPool \<Rightarrow> 'a ObjectPool \<times> 'a effect list" where
  "dispose p = (p\<lparr>available := [], inUse := []\<rparr>, map Disposed (available p @ inUse p))"

definition stats :: "'a ObjectPool \<Rightarrow> pool_stats" where
  "stats p = \<lparr>stats_available = length (available p), stats_inUse = length (inUse p),
              stats_total = length (available p) + length (inUse p)\<rparr>"

text \<open>Sequences of calls of the public methods, starting from a constructed pool.\<close>

datatype 'a pool_op = Acquire | Release 'a | ReleaseAll | Dispose

fun exec_op :: "(nat \<Rightarrow> 'a) \<Rightarrow> bool \<Rightarrow> 'a ObjectPool \<Rightarrow> 'a pool_op \<Rightarrow> 'a ObjectPool" where
  "exec_op createFn r p Acquire = snd (acquire createFn p)"
| "exec_op createFn r p (Release obj) = fst (release r p obj)"
| "exec_op createFn r p ReleaseAll = fst (releaseAll r p)"
| "exec_op createFn r p Dispose = fst (dispose p)"

definition run_ops :: "(nat \<Rightarrow> 'a) \<Rightarrow> bool \<Rightarrow> 'a ObjectPool \<Rightarrow> 'a pool_op list \<Rightarrow> 'a ObjectPool" where
  "run_ops createFn r p ops = foldl (exec_op createFn r) p ops"

text \<open>
  The bookkeeping invariant: no object twice in either container, none in both, and every
  pooled object is a result of one of the factory calls made so far.
\<close>

definition pool_inv :: "(nat \<Rightarrow> 'a) \<Rightarrow> 'a ObjectPool \<Rightarrow> bool" where
  "pool_inv createFn p \<longleftrightarrow>
     distinct (available p) \<and> distinct (inUse p) \<and> set (available p) \<inter> set (inUse p) = {} \<and>
     (\<forall>x \<in> set (available p) \<union> set (inUse p). \<exists>i < created p. x = createFn i)"

text \<open>\<open>n\<close> successive calls of \<open>acquire\<close>, and successive calls of \<open>release\<close> on a list.\<close>

fun acquire_n :: "(nat \<Rightarrow> 'a) \<Rightarrow> nat \<Rightarrow> 'a ObjectPool \<Rightarrow> 'a list \<times> 'a ObjectPool" where
  "acquire_n createFn 0 p = ([], p)"
| "acquire_n createFn (Suc n) p =
     (let (obj, p') = acquire createFn p; (objs, p'') = acquire_n createFn n p'
      in (obj # objs, p''))"

definition release_list :: "bool \<Rightarrow> 'a ObjectPool \<Rightarrow> 'a list \<Rightarrow> 'a ObjectPool" where
  "release_list r p xs = foldl (\<lambda>q x. fst (release r q x)) p xs"

section \<open>Geometry, scene nodes and random numbers shared by the generators\<close>

text \<open>
  JavaScript numbers are modelled as exact reals: rounding errors of floating-point
  arithmetic are outside this model. A \<open>THREE.Vector3\<close> is a triple. A grid cell is the
  pair of integers that the key string \<open>`${gx},${gz}`\<close> prints.
\<close>

type_synonym vec3 = "real \<times> real \<times> real"
type_synonym cell = "int \<times> int"

definition vx :: "vec3 \<Rightarrow> real" where "vx v = fst v"
definition vy :: "vec3 \<Rightarrow> real" where "vy v = fst (snd v)"
definition vz :: "vec3 \<Rightarrow> real" where "vz v = snd (snd v)"

text \<open>\<open>Math.round\<close> rounds to the nearest integer, a tie towards plus infinity.\<close>

definition js_round :: "real \<Rightarrow> int" where
  "js_round a = \<lfloor>a + 1 / 2\<rfloor>"

text \<open>
  \<open>Math.ceil(Math.sqrt(q))\<close> for \<open>q \<ge> 0\<close>, computed by search: the least natural number
  whose square is at least \<open>q\<close>.
\<close>

function ceil_sqrt_from :: "real \<Rightarrow> nat \<Rightarrow> nat" where
  "ceil_sqrt_from q n = (if q \<le> of_nat (n * n) then n else ceil_sqrt_from q (Suc n))"
  by pat_completeness auto
termination
proof (relation "measure (\<lambda>(q, n). nat \<lceil>q\<rceil> - n)")
  show "wf (measure (\<lambda>(q, n). nat \<lceil>q\<rceil> - n))" by simp
next
  fix q :: real and n :: nat
  assume a: "\<not> q \<le> of_nat (n * n)"
  have "(of_nat n :: real) \<le> of_nat (n * n)"
    by (cases n) (simp_all del: of_nat_mult of_nat_Suc)
  with a have "of_nat n < q" by linarith
  then have "int n < \<lceil>q\<rceil>" by (simp add: less_ceiling_iff)
  then have "n < nat \<lceil>q\<rceil>" by linarith
  then show "((q, Suc n), (q, n)) \<in> measure (\<lambda>(q, n). nat \<lceil>q\<rceil> - n)"
    by simp
qed

declare ceil_sqrt_from.simps [simp del]

text \<open>\<open>Math.ceil(a.distanceTo(b))\<close>.\<close>

definition ceil_distance :: "vec3 \<Rightarrow> vec3 \<Rightarrow> nat" where
  "ceil_distance a b =
     ceil_sqrt_from ((vx a - vx b) * (vx a - vx b) + (vy a - vy b) * (vy a - vy b)
                     + (vz a - vz b) * (vz a - vz b)) 0"

text \<open>
  \<open>String.prototype.toLowerCase\<close> on ASCII letters and \<open>String.prototype.includes\<close>.
\<close>

definition toLowerCase_char :: "char \<Rightarrow> char" where
  "toLowerCase_char c =
     (let n = (of_char c :: nat) in if 65 \<le> n \<and> n \<le> 90 then char_of (n + 32) else c)"

definition toLowerCase :: "string \<Rightarrow> string" where
  "toLowerCase s = map toLowerCase_char s"

fun startsWith :: "string \<Rightarrow> string \<Rightarrow> bool" where
  "startsWith s [] = True"
| "startsWith [] (c # cs) = False"
| "startsWith (a # as) (c # cs) = (a = c \<and> startsWith as cs)"

fun str_includes :: "string \<Rightarrow> string \<Rightarrow> bool" where
  "str_includes [] sub = (sub = [])"
| "str_includes (a # as) sub = (startsWith (a # as) sub \<or> str_includes as sub)"

text \<open>
  The scene graph and its matrix arithmetic belong to the rendering library, and the
  templates are assets loaded at run time. A template is modelled by what the generators
  read from it: the nodes that \<open>traverse\<close> visits, in visiting order (the root first), each
  with its name and with the world position and world quaternion it has when the root is
  given a placement (position, quaternion and scale); and the placement the template itself
  has, which \<open>clone\<close> copies. Quaternions are values of an arbitrary type \<open>'q\<close>. A piece
  is a clone: the nodes of its template, the name of that template, and its own placement.
  Pieces are attached to the scene directly, so the world position of a piece is its
  position.
\<close>

record 'q placement =
  position :: vec3
  quaternion :: 'q
  scale :: vec3

record 'q node =
  node_name :: string
  world_of :: "'q placement \<Rightarrow> vec3 \<times> 'q"

record 'q template =
  t_nodes :: "'q node list"
  t_placement :: "'q placement"

record 'q piece =
  pkey :: string
  nodes :: "'q node list"
  placement :: "'q placement"

text \<open>The last node of the traversal that satisfies a test, as the \<open>traverse\<close> callbacks keep it.\<close>

definition find_last :: "('a \<Rightarrow> bool) \<Rightarrow> 'a list \<Rightarrow> 'a option" where
  "find_last P xs = (case filter P xs of [] \<Rightarrow> None | y # ys \<Rightarrow> Some (last (y # ys)))"

text \<open>
  \<open>Math.random\<close>: \<open>rand k\<close> is the value of call number \<open>k\<close>, a number in \<open>[0, 1)\<close>; the
  state counts the calls made. The Fisher-Yates shuffle of \<open>shuffleArray\<close>, which
  \<open>spawnProceduralRoadSystem1\<close> repeats inline: for \<open>i\<close> from the last index down to 1,
  swap the elements at \<open>i\<close> and \<open>Math.floor(Math.random() * (i + 1))\<close>.
\<close>

definition rand_ok :: "(nat \<Rightarrow> real) \<Rightarrow> bool" where
  "rand_ok rand \<longleftrightarrow> (\<forall>k. 0 \<le> rand k \<and> rand k < 1)"

fun shuffle_loop :: "(nat \<Rightarrow> real) \<Rightarrow> nat \<Rightarrow> nat \<Rightarrow> 'a list \<Rightarrow> 'a list \<times> nat" where
  "shuffle_loop rand k 0 xs = (xs, k)"
| "shuffle_loop rand k (Suc i) xs =
     (let j = nat \<lfloor>rand k * real (Suc i + 1)\<rfloor>
      in shuffle_loop rand (Suc k) i ((xs[Suc i := xs ! j])[j := xs ! Suc i]))"

definition shuffleArray :: "(nat \<Rightarrow> real) \<Rightarrow> nat \<Rightarrow> 'a list \<Rightarrow> 'a list \<times> nat" where
  "shuffleArray rand k xs = shuffle_loop rand k (length xs - 1) xs"


section \<open>The viewer's road generators (src/lowpoly.js)\<close>

text \<open>
  The viewer fields the generators use: the committed pieces in commit order, the set of
  occupied cell keys, and the number of \<open>Math.random\<close> calls made so far. The ground-tile
  grid that \<open>trySpawnRoadPiece\<close> also edits is not read by any function modelled here and
  is left out.
\<close>

record 'q viewer =
  roadPieces :: "'q piece list"
  occupiedCells :: "cell set"
  rnd :: nat

definition GRID_CELL_SIZE :: real where
  "GRID_CELL_SIZE = 2"

definition cellKey :: "real \<Rightarrow> real \<Rightarrow> cell" where
  "cellKey a b = (js_round (a / GRID_CELL_SIZE), js_round (b / GRID_CELL_SIZE))"

definition is_socket_out :: "'q node \<Rightarrow> bool" where
  "is_socket_out child =
     (let name = toLowerCase (node_name child)
      in str_includes name ''socket_out'' \<or>
         (str_includes name ''socket'' \<and> \<not> str_includes name ''socket_in''))"

definition findSocketOut :: "'q node list \<Rightarrow> 'q node option" where
  "findSocketOut model = find_last is_socket_out model"

definition getSocketTransform :: "'q piece \<Rightarrow> (vec3 \<times> 'q) option" where
  "getSocketTransform p =
     (case findSocketOut (nodes p) of
        None \<Rightarrow> None
      | Some socket \<Rightarrow> Some (world_of socket (placement p)))"

definition sampleRoadCells :: "'q piece \<Rightarrow> cell list" where
  "sampleRoadCells p =
     (case findSocketOut (nodes p) of
        None \<Rightarrow> []
      | Some socket \<Rightarrow>
          (let start = position (placement p);
               end' = fst (world_of socket (placement p));
               steps = max 1 (ceil_distance start end')
           in map (\<lambda>i. let t = real i / real steps
                        in cellKey (vx start + (vx end' - vx start) * t)
                                   (vz start + (vz end' - vz start) * t))
                  [0..<Suc steps]))"

definition checkCollision :: "cell set \<Rightarrow> cell list \<Rightarrow> cell set \<Rightarrow> bool" where
  "checkCollision occupied cells recentCells =
     (\<exists>c \<in> set cells. c \<in> occupied \<and> c \<notin> recentCells)"

text \<open>
  \<open>trySpawnRoadPiece\<close>: the result is the committed piece, or \<open>None\<close> for JavaScript's
  \<open>null\<close>, with the viewer after the call. \<open>roadTemplates\<close> is the dictionary of loaded
  templates.
\<close>

definition recentCellsOf :: "'q piece list \<Rightarrow> cell set" where
  "recentCellsOf pieces =
     (let recentCount = min 2 (length pieces)
      in \<Union> (set (map (\<lambda>p. set (sampleRoadCells p)) (drop (length pieces - recentCount) pieces))))"

definition trySpawnRoadPiece ::
  "(string \<rightharpoonup> 'q template) \<Rightarrow> ('q, 'z) viewer_scheme \<Rightarrow> string \<Rightarrow> vec3 \<Rightarrow> 'q
   \<Rightarrow> 'q piece option \<times> ('q, 'z) viewer_scheme" where
  "trySpawnRoadPiece roadTemplates v pieceName pos quat =
     (case roadTemplates pieceName of
        None \<Rightarrow> (None, v)
      | Some template \<Rightarrow>
          (let testInstance = \<lparr>pkey = pieceName, nodes = t_nodes template,
                 placement = \<lparr>position = pos, quaternion = quat, scale = (2, 2, 2)\<rparr>\<rparr>;
               cells = sampleRoadCells testInstance;
               recentCells = recentCellsOf (roadPieces v);
               hasRoadCollision = (\<exists>c \<in> set cells. c \<in> occupiedCells v \<and> c \<notin> recentCells)
           in if hasRoadCollision then (None, v)
              else (let committed = testInstance\<lparr>placement :=
                          (placement testInstance)\<lparr>position := (vx pos, vy pos + 1 / 1000, vz pos)\<rparr>\<rparr>
                    in (Some committed,
                        v\<lparr>occupiedCells := occupiedCells v \<union> set cells,
                          roadPieces := roadPieces v @ [committed]\<rparr>))))"

text \<open>
  \<open>generateRoad\<close>. The state of its loop extends the viewer by the frontier transform and
  the failure counter.
\<close>

record 'q gen_state = "'q viewer" +
  currentPos :: vec3
  currentQuat :: 'q
  consecutiveFailures :: nat

definition maxFailures :: nat where
  "maxFailures = 5"

fun try_pieces ::
  "(string \<rightharpoonup> 'q template) \<Rightarrow> ('q, 'z) viewer_scheme \<Rightarrow> string list \<Rightarrow> vec3 \<Rightarrow> 'q
   \<Rightarrow> 'q piece option \<times> ('q, 'z) viewer_scheme" where
  "try_pieces roadTemplates v [] pos quat = (None, v)"
| "try_pieces roadTemplates v (pieceName # rest) pos quat =
     (case trySpawnRoadPiece roadTemplates v pieceName pos quat of
        (Some p, v') \<Rightarrow> (Some p, v')
      | (None, v') \<Rightarrow> try_pieces roadTemplates v' rest pos quat)"

fun generateRoad_loop ::
  "(string \<rightharpoonup> 'q template) \<Rightarrow> (nat \<Rightarrow> real) \<Rightarrow> nat \<Rightarrow> 'q gen_state \<Rightarrow> 'q gen_state" where
  "generateRoad_loop roadTemplates rand 0 st = st"
| "generateRoad_loop roadTemplates rand (Suc n) st =
     (if \<not> consecutiveFailures st < maxFailures then st
      else
        (let pieceOptions =
               (if consecutiveFailures st > 0 then [''road_long'', ''road_short'']
                else [''road_long'', ''road_short'', ''road_curve_wide'', ''road_curve_tight'']);
             (shuffled, k) = shuffleArray rand (rnd st) pieceOptions;
             (piece, st1) = try_pieces roadTemplates (st\<lparr>rnd := k\<rparr>) shuffled
                               (currentPos st) (currentQuat st)
         in case piece of
              None \<Rightarrow> generateRoad_loop roadTemplates rand n
                        (st1\<lparr>consecutiveFailures := consecutiveFailures st1 + 1\<rparr>)
            | Some p \<Rightarrow>
                (let st2 = st1\<lparr>consecutiveFailures := 0\<rparr>
                 in generateRoad_loop roadTemplates rand n
                      (case getSocketTransform p of
                         None \<Rightarrow> st2
                       | Some (pos, quat) \<Rightarrow> st2\<lparr>currentPos := pos, currentQuat := quat\<rparr>))))"

text \<open>\<open>qid\<close> is the identity quaternion; \<open>k0\<close> is the number of random calls made before.\<close>

definition generateRoad ::
  "(string \<rightharpoonup> 'q template) \<Rightarrow> (nat \<Rightarrow> real) \<Rightarrow> 'q \<Rightarrow> nat \<Rightarrow> nat \<Rightarrow> 'q gen_state" where
  "generateRoad roadTemplates rand qid k0 count =
     generateRoad_loop roadTemplates rand count
       \<lparr>roadPieces = [], occupiedCells = {}, rnd = k0,
        currentPos = (0, 0, 0), currentQuat = qid, consecutiveFailures = 0\<rparr>"




text \<open>
  The chain that \<open>generateRoad\<close> builds: a piece that follows a piece with an exit socket
  has the quaternion of that socket and its world position raised by 0.001 in \<open>y\<close>; a piece
  that follows a piece without exit socket has the position and quaternion of that piece.
\<close>

fun lifted_chain :: "'q piece list \<Rightarrow> bool" where
  "lifted_chain (p # p' # rest) =
     ((case getSocketTransform p of
         None \<Rightarrow> position (placement p') = position (placement p) \<and>
                 quaternion (placement p') = quaternion (placement p)
       | Some tr \<Rightarrow> position (placement p') = (vx (fst tr), vy (fst tr) + 1 / 1000, vz (fst tr)) \<and>
                    quaternion (placement p') = snd tr) \<and>
      lifted_chain (p' # rest))"
| "lifted_chain ps = True"

text \<open>
  The invariant of the loop of \<open>generateRoad\<close>: the committed pieces form such a chain,
  and the frontier transform is the exit socket transform of the last piece, or, when that
  piece has no exit socket, the transform at which it was placed.
\<close>

definition frontier_ok :: "'q gen_state \<Rightarrow> bool" where
  "frontier_ok st \<longleftrightarrow>
     lifted_chain (roadPieces st) \<and>
     (roadPieces st \<noteq> [] \<longrightarrow>
        (case getSocketTransform (last (roadPieces st)) of
           None \<Rightarrow> position (placement (last (roadPieces st)))
                     = (vx (currentPos st), vy (currentPos st) + 1 / 1000, vz (currentPos st)) \<and>
                   quaternion (placement (last (roadPieces st))) = currentQuat st
         | Some tr \<Rightarrow> currentPos st = fst tr \<and> currentQuat st = snd tr))"

subsection \<open>\<open>spawnProceduralRoadSystem1\<close>\<close>

datatype road_type = Straight | Curve

definition ROAD_TYPES :: "string \<rightharpoonup> road_type" where
  "ROAD_TYPES =
     [''road_long'' \<mapsto> Straight, ''road_short'' \<mapsto> Straight,
      ''road_curve_wide'' \<mapsto> Curve, ''road_curve_tight'' \<mapsto> Curve]"

text \<open>\<open>Object.keys(ROAD_TYPES)\<close>, in insertion order.\<close>

definition ROAD_KEYS :: "string list" where
  "ROAD_KEYS = [''road_long'', ''road_short'', ''road_curve_wide'', ''road_curve_tight'']"

definition isCurve :: "string \<Rightarrow> bool" where
  "isCurve key = (ROAD_TYPES key = Some Curve)"

definition MAX_SAME_DIR_CURVES :: nat where
  "MAX_SAME_DIR_CURVES = 2"

definition MIN_STRAIGHTS_AFTER_CURVE :: nat where
  "MIN_STRAIGHTS_AFTER_CURVE = 1"

text \<open>
  The local variables of the function that live across iterations, on top of the viewer.
  A candidate is a pair of a template key and the mirror flag.
\<close>

record 'q sys1_state = "'q viewer" +
  recentCellSets :: "cell set list"
  lastCurveDir :: int
  sameDirCount :: nat
  straightsSinceCurve :: nat

type_synonym candidate = "string \<times> bool"

definition dir_of :: "bool \<Rightarrow> int" where
  "dir_of mirror = (if mirror then - 1 else 1)"

definition sampleCenterline :: "'q piece \<Rightarrow> (real \<times> real) list" where
  "sampleCenterline p =
     (let origin = position (placement p)
      in case findSocketOut (nodes p) of
           None \<Rightarrow> [(vx origin, vz origin)]
         | Some socket \<Rightarrow>
             (let socketWorld = fst (world_of socket (placement p));
                  steps = max (ceil_distance socketWorld origin) 1
              in map (\<lambda>i. let t = real i / real steps
                           in (vx origin + (vx socketWorld - vx origin) * t,
                               vz origin + (vz socketWorld - vz origin) * t))
                     [0..<Suc steps]))"

definition checkCollision1 :: "cell set \<Rightarrow> (real \<times> real) list \<Rightarrow> cell set \<Rightarrow> bool" where
  "checkCollision1 occupied samples recentCells =
     (\<exists>s \<in> set samples. cellKey (fst s) (snd s) \<in> occupied \<and> cellKey (fst s) (snd s) \<notin> recentCells)"

definition filterByRules :: "('q, 'z) sys1_state_scheme \<Rightarrow> candidate list \<Rightarrow> candidate list" where
  "filterByRules st candidates =
     filter (\<lambda>(key, mirror).
        if \<not> isCurve key then True
        else if straightsSinceCurve st < MIN_STRAIGHTS_AFTER_CURVE then False
        else if dir_of mirror = lastCurveDir st \<and> sameDirCount st \<ge> MAX_SAME_DIR_CURVES then False
        else True) candidates"

definition buildCandidates :: "nat \<Rightarrow> candidate list" where
  "buildCandidates i =
     (if i < 3 then map (\<lambda>key. (key, False)) (filter (\<lambda>key. ROAD_TYPES key = Some Straight) ROAD_KEYS)
      else concat (map (\<lambda>key. if ROAD_TYPES key = Some Curve then [(key, False), (key, True)]
                                else [(key, False)]) ROAD_KEYS))"

text \<open>
  The clone of a candidate, scaled, mirrored and positioned: the first piece at
  \<open>(0, 0, 5)\<close> with the identity quaternion, a later one at the world transform of the
  exit socket of the last committed piece; when that piece has no exit socket the clone
  keeps the position and quaternion copied from its template.
\<close>

definition placeCandidate :: "'q \<Rightarrow> 'q piece list \<Rightarrow> 'q template \<Rightarrow> candidate \<Rightarrow> 'q piece" where
  "placeCandidate qid pieces template cand =
     (let sc = (if snd cand then (- 2, 2, 2) else (2, 2, 2));
          (pos, quat) =
            (if length pieces = 0 then ((0, 0, 5), qid)
             else (case findSocketOut (nodes (last pieces)) of
                     Some prevSocket \<Rightarrow> world_of prevSocket (placement (last pieces))
                   | None \<Rightarrow> (position (t_placement template), quaternion (t_placement template))))
      in \<lparr>pkey = fst cand, nodes = t_nodes template,
          placement = \<lparr>position = pos, quaternion = quat, scale = sc\<rparr>\<rparr>)"

text \<open>The direction tracking after a commit.\<close>

definition updateTracking :: "candidate \<Rightarrow> ('q, 'z) sys1_state_scheme \<Rightarrow> ('q, 'z) sys1_state_scheme" where
  "updateTracking cand st =
     (if isCurve (fst cand)
      then st\<lparr>sameDirCount := (if dir_of (snd cand) = lastCurveDir st then sameDirCount st + 1 else 1),
              lastCurveDir := dir_of (snd cand),
              straightsSinceCurve := 0\<rparr>
      else st\<lparr>straightsSinceCurve := straightsSinceCurve st + 1\<rparr>)"

definition commitPiece ::
  "'q piece \<Rightarrow> (real \<times> real) list \<Rightarrow> candidate \<Rightarrow> ('q, 'z) sys1_state_scheme
   \<Rightarrow> ('q, 'z) sys1_state_scheme" where
  "commitPiece p samples cand st =
     (let newCells = set (map (\<lambda>s. cellKey (fst s) (snd s)) samples);
          pushed = recentCellSets st @ [newCells]
      in updateTracking cand
           (st\<lparr>occupiedCells := occupiedCells st \<union> newCells,
              recentCellSets := (if length pushed > 3 then tl pushed else pushed),
              roadPieces := roadPieces st @ [p]\<rparr>))"

text \<open>
  The loop over the shuffled candidates: \<open>Some\<close> of the state after the first candidate
  that does not collide is committed, \<open>None\<close> when every candidate was skipped or rejected.
\<close>

fun tryCandidates ::
  "(string \<rightharpoonup> 'q template) \<Rightarrow> 'q \<Rightarrow> cell set \<Rightarrow> 'q sys1_state \<Rightarrow> candidate list
   \<Rightarrow> 'q sys1_state option" where
  "tryCandidates templates qid recentCells st [] = None"
| "tryCandidates templates qid recentCells st (cand # rest) =
     (case templates (fst cand) of
        None \<Rightarrow> tryCandidates templates qid recentCells st rest
      | Some template \<Rightarrow>
          (let p = placeCandidate qid (roadPieces st) template cand;
               samples = sampleCenterline p
           in if checkCollision1 (occupiedCells st) samples recentCells
              then tryCandidates templates qid recentCells st rest
              else Some (commitPiece p samples cand st)))"

text \<open>
  The spawn loop, \<open>n\<close> iterations from iteration number \<open>i\<close>; it stops at the first
  iteration that places nothing.
\<close>

fun spawnLoop ::
  "(string \<rightharpoonup> 'q template) \<Rightarrow> (nat \<Rightarrow> real) \<Rightarrow> 'q \<Rightarrow> nat \<Rightarrow> nat \<Rightarrow> 'q sys1_state
   \<Rightarrow> 'q sys1_state" where
  "spawnLoop templates rand qid 0 i st = st"
| "spawnLoop templates rand qid (Suc n) i st =
     (let recentCells = \<Union> (set (recentCellSets st));
          candidates = filterByRules st (buildCandidates i);
          (shuffled, k) = shuffleArray rand (rnd st) candidates;
          st1 = st\<lparr>rnd := k\<rparr>
      in case tryCandidates templates qid recentCells st1 shuffled of
           None \<Rightarrow> st1
         | Some st2 \<Rightarrow> spawnLoop templates rand qid n (Suc i) st2)"

definition spawnProceduralRoadSystem1 ::
  "(string \<rightharpoonup> 'q template) \<Rightarrow> (nat \<Rightarrow> real) \<Rightarrow> 'q \<Rightarrow> nat \<Rightarrow> nat \<Rightarrow> 'q sys1_state" where
  "spawnProceduralRoadSystem1 templates rand qid k0 count =
     spawnLoop templates rand qid count 0
       \<lparr>roadPieces = [], occupiedCells = {}, rnd = k0, recentCellSets = [],
        lastCurveDir = 0, sameDirCount = 0, straightsSinceCurve = 99\<rparr>"

text \<open>
  The committed chain read back from the pieces: whether a piece is a curve, and its
  direction (a mirrored clone has a negative \<open>x\<close> scale).
\<close>

definition piece_is_curve :: "'q piece \<Rightarrow> bool" where
  "piece_is_curve p = isCurve (pkey p)"

definition piece_dir :: "'q piece \<Rightarrow> int" where
  "piece_dir p = dir_of (vx (scale (placement p)) < 0)"

definition curve_dirs :: "'q piece list \<Rightarrow> int list" where
  "curve_dirs ps = map piece_dir (filter piece_is_curve ps)"

text \<open>No three curves in a row (straights between them left aside) turn the same way.\<close>

fun no_long_run :: "int list \<Rightarrow> bool" where
  "no_long_run (a # b # c # ds) = (\<not> (a = b \<and> b = c) \<and> no_long_run (b # c # ds))"
| "no_long_run ds = True"

text \<open>Every curve of the chain comes right after a straight piece.\<close>

definition curves_follow_straights :: "'q piece list \<Rightarrow> bool" where
  "curves_follow_straights ps \<longleftrightarrow>
     (\<forall>i < length ps. piece_is_curve (ps ! i) \<longrightarrow> 0 < i \<and> \<not> piece_is_curve (ps ! (i - 1)))"

text \<open>
  The tracking variables as a triple, and the update that one committed piece causes,
  replayed over a chain.
\<close>

definition tracking :: "('q, 'z) sys1_state_scheme \<Rightarrow> int \<times> nat \<times> nat" where
  "tracking st = (lastCurveDir st, sameDirCount st, straightsSinceCurve st)"

definition track :: "int \<times> nat \<times> nat \<Rightarrow> 'q piece \<Rightarrow> int \<times> nat \<times> nat" where
  "track t p =
     (case t of (l, s, ssc) \<Rightarrow>
        if piece_is_curve p
        then (piece_dir p, if piece_dir p = l then s + 1 else 1, 0)
        else (l, s, ssc + 1))"

text \<open>The cells a committed piece of this generator has claimed.\<close>

definition sample_cells1 :: "'q piece \<Rightarrow> cell list" where
  "sample_cells1 p = map (\<lambda>s. cellKey (fst s) (snd s)) (sampleCenterline p)"

definition piece_cells1 :: "'q piece \<Rightarrow> cell set" where
  "piece_cells1 p = set (sample_cells1 p)"

text \<open>
  The invariant of the spawn loop: the tracking variables describe the committed chain
  (its last curve direction, whether its last two curves turn the same way, whether its
  last piece is a curve), and the chain obeys the two direction rules.
\<close>

definition tracker_ok :: "int list \<Rightarrow> int \<Rightarrow> nat \<Rightarrow> bool" where
  "tracker_ok ds l s \<longleftrightarrow>
     (ds = [] \<longrightarrow> l = 0 \<and> s = 0) \<and>
     (ds \<noteq> [] \<longrightarrow>
        l = last ds \<and> s = (if 2 \<le> length ds \<and> last (butlast ds) = last ds then 2 else 1))"

definition chain_inv :: "'q piece list \<Rightarrow> int \<times> nat \<times> nat \<Rightarrow> bool" where
  "chain_inv ps t =
     (case t of (l, s, ssc) \<Rightarrow>
        (ssc = 0 \<longleftrightarrow> ps \<noteq> [] \<and> piece_is_curve (last ps)) \<and>
        tracker_ok (curve_dirs ps) l s \<and>
        no_long_run (curve_dirs ps) \<and>
        curves_follow_straights ps)"

definition sys1_inv :: "nat \<Rightarrow> 'q sys1_state \<Rightarrow> bool" where
  "sys1_inv i st \<longleftrightarrow>
     length (roadPieces st) = i \<and>
     tracking st = foldl track (0, 0, 99) (roadPieces st) \<and>
     chain_inv (roadPieces st) (tracking st)"

text \<open>
  The seam-tolerance window of this generator: \<open>recentCellSets\<close> holds the cell sets of
  the last three committed pieces.
\<close>

definition recent_inv :: "'q sys1_state \<Rightarrow> bool" where
  "recent_inv st \<longleftrightarrow>
     recentCellSets st = drop (length (roadPieces st) - 3) (map piece_cells1 (roadPieces st))"

text \<open>
  The chain property of this generator: every piece that follows a piece with an exit
  socket has the world position and quaternion of that socket.
\<close>

fun chained1 :: "'q piece list \<Rightarrow> bool" where
  "chained1 (p # p' # rest) =
     ((case getSocketTransform p of
         None \<Rightarrow> True
       | Some tr \<Rightarrow> position (placement p') = fst tr \<and> quaternion (placement p') = snd tr) \<and>
      chained1 (p' # rest))"
| "chained1 ps = True"

subsection \<open>\<open>spawnSpineAndBranchSystem3\<close>\<close>

text \<open>
  The seeded generator (mulberry32). JavaScript's \<open>| 0\<close>, \<open>Math.imul\<close>, \<open>^\<close> and
  \<open>>>>\<close> work on 32-bit integers, so the seed is a 32-bit word whose arithmetic wraps; the
  result is the unsigned value of the mixed word divided by \<open>2^32\<close>. One call returns the
  new seed and the number.
\<close>

definition seededRandom :: "32 word \<Rightarrow> 32 word \<times> real" where
  "seededRandom seedState =
     (let s = seedState + 0x6D2B79F5;
          t = (s XOR drop_bit 15 s) * (1 OR s);
          t' = (t + (t XOR drop_bit 7 t) * (61 OR t)) XOR t
      in (s, real_of_int (uint (t' XOR drop_bit 14 t')) / 4294967296))"

definition SEED :: "32 word" where
  "SEED = 12345"

definition SPINE_LENGTH :: nat where
  "SPINE_LENGTH = 20"

definition ROADX_CHANCE :: real where
  "ROADX_CHANCE = 2 / 10"

text \<open>
  \<open>findSocket\<close>: the last node whose name equals the wanted name up to letter case, or else
  the last node whose name contains it.
\<close>

definition findSocket :: "'q node list \<Rightarrow> string \<Rightarrow> 'q node option" where
  "findSocket model socketName =
     (case find_last (\<lambda>child. toLowerCase (node_name child) = toLowerCase socketName) model of
        Some socket \<Rightarrow> Some socket
      | None \<Rightarrow>
          find_last (\<lambda>child. str_includes (toLowerCase (node_name child)) (toLowerCase socketName))
            model)"

text \<open>The local helper \<open>getSocketTransform(piece, socketName)\<close> of this generator.\<close>

definition getSocketTransform3 :: "'q piece \<Rightarrow> string \<Rightarrow> (vec3 \<times> 'q) option" where
  "getSocketTransform3 p socketName =
     (case findSocket (nodes p) socketName of
        None \<Rightarrow> None
      | Some socket \<Rightarrow> Some (world_of socket (placement p)))"

text \<open>
  \<open>spawnPiece\<close> snaps the origin of a clone to the target transform and commits it; there
  is no occupancy test. The clone keeps the scale of its template.
\<close>

definition spawnPiece ::
  "(string \<rightharpoonup> 'q template) \<Rightarrow> ('q, 'z) viewer_scheme \<Rightarrow> string \<Rightarrow> vec3 \<Rightarrow> 'q
   \<Rightarrow> 'q piece option \<times> ('q, 'z) viewer_scheme" where
  "spawnPiece templates v pieceType targetPos targetQuat =
     (case templates pieceType of
        None \<Rightarrow> (None, v)
      | Some template \<Rightarrow>
          (let p = \<lparr>pkey = pieceType, nodes = t_nodes template,
                    placement = (t_placement template)\<lparr>position := targetPos,
                                                       quaternion := targetQuat\<rparr>\<rparr>
           in (Some p, v\<lparr>roadPieces := roadPieces v @ [p]\<rparr>)))"

record 'q branch =
  b_pos :: vec3
  b_quat :: 'q
  b_side :: string
  b_length :: nat

record 'q sys3_state = "'q viewer" +
  branches :: "'q branch list"
  seedState :: "32 word"
  spinePos :: vec3
  spineQuat :: 'q

text \<open>The branch requests that a committed junction queues: left, then right, each if found.\<close>

definition junctionBranches :: "'q piece \<Rightarrow> 'q branch list" where
  "junctionBranches p =
     (case getSocketTransform3 p ''socket_left'' of
        None \<Rightarrow> []
      | Some (pos, quat) \<Rightarrow> [\<lparr>b_pos = pos, b_quat = quat, b_side = ''left'', b_length = 5\<rparr>]) @
     (case getSocketTransform3 p ''socket_right'' of
        None \<Rightarrow> []
      | Some (pos, quat) \<Rightarrow> [\<lparr>b_pos = pos, b_quat = quat, b_side = ''right'', b_length = 5\<rparr>])"

text \<open>
  The choice of the piece type at position \<open>i\<close>: the seeded generator is called only at
  the positions that are neither first nor last. The result is the flag \<open>useRoadX\<close> and
  the seed afterwards.
\<close>

definition chooseRoadX :: "nat \<Rightarrow> 32 word \<Rightarrow> bool \<times> 32 word" where
  "chooseRoadX i seed =
     (if 0 < i \<and> i < SPINE_LENGTH - 1
      then (snd (seededRandom seed) < ROADX_CHANCE, fst (seededRandom seed))
      else (False, seed))"

text \<open>
  One iteration of the main spine loop at position \<open>i\<close>: the state after it, and whether the
  loop goes on (it breaks when the template is missing or the piece has no \<open>socket_out\<close>).
\<close>

definition spineStep ::
  "(string \<rightharpoonup> 'q template) \<Rightarrow> nat \<Rightarrow> 'q sys3_state \<Rightarrow> 'q sys3_state \<times> bool" where
  "spineStep templates i st =
     (let useRoadX = fst (chooseRoadX i (seedState st));
          pieceType = (if useRoadX then ''RoadX'' else ''Road1'');
          st1 = st\<lparr>seedState := snd (chooseRoadX i (seedState st))\<rparr>
      in case spawnPiece templates st1 pieceType (spinePos st) (spineQuat st) of
           (None, st2) \<Rightarrow> (st2, False)
         | (Some p, st2) \<Rightarrow>
             (let st3 = (if useRoadX then st2\<lparr>branches := branches st2 @ junctionBranches p\<rparr>
                         else st2)
              in case getSocketTransform3 p ''socket_out'' of
                   Some (pos, quat) \<Rightarrow> (st3\<lparr>spinePos := pos, spineQuat := quat\<rparr>, True)
                 | None \<Rightarrow> (st3, False)))"

fun spineLoop ::
  "(string \<rightharpoonup> 'q template) \<Rightarrow> nat \<Rightarrow> nat \<Rightarrow> 'q sys3_state \<Rightarrow> 'q sys3_state" where
  "spineLoop templates 0 i st = st"
| "spineLoop templates (Suc n) i st =
     (if snd (spineStep templates i st)
      then spineLoop templates n (Suc i) (fst (spineStep templates i st))
      else fst (spineStep templates i st))"

text \<open>
  One branch: up to \<open>n\<close> straight pieces from a transform. One iteration returns the
  viewer after it and the transform for the next piece, or \<open>None\<close> when the loop breaks.
\<close>

definition branchStep ::
  "(string \<rightharpoonup> 'q template) \<Rightarrow> ('q, 'z) viewer_scheme \<Rightarrow> vec3 \<Rightarrow> 'q
   \<Rightarrow> ('q, 'z) viewer_scheme \<times> (vec3 \<times> 'q) option" where
  "branchStep templates v branchPos branchQuat =
     (case spawnPiece templates v ''Road1'' branchPos branchQuat of
        (None, v') \<Rightarrow> (v', None)
      | (Some p, v') \<Rightarrow> (v', getSocketTransform3 p ''socket_out''))"

fun branchLoop ::
  "(string \<rightharpoonup> 'q template) \<Rightarrow> nat \<Rightarrow> ('q, 'z) viewer_scheme \<Rightarrow> vec3 \<Rightarrow> 'q
   \<Rightarrow> ('q, 'z) viewer_scheme" where
  "branchLoop templates 0 v branchPos branchQuat = v"
| "branchLoop templates (Suc n) v branchPos branchQuat =
     (case snd (branchStep templates v branchPos branchQuat) of
        None \<Rightarrow> fst (branchStep templates v branchPos branchQuat)
      | Some next \<Rightarrow>
          branchLoop templates n (fst (branchStep templates v branchPos branchQuat))
            (fst next) (snd next))"

fun walkBranches ::
  "(string \<rightharpoonup> 'q template) \<Rightarrow> ('q, 'z) viewer_scheme \<Rightarrow> 'q branch list
   \<Rightarrow> ('q, 'z) viewer_scheme" where
  "walkBranches templates v [] = v"
| "walkBranches templates v (b # bs) =
     walkBranches templates (branchLoop templates (b_length b) v (b_pos b) (b_quat b)) bs"

text \<open>
  The state after the spine, and the whole function. Only \<open>roadPieces\<close> is reset at the
  start; the occupied set of the viewer is neither read nor written.
\<close>

definition spineOf :: "(string \<rightharpoonup> 'q template) \<Rightarrow> 'q \<Rightarrow> 'q viewer \<Rightarrow> 'q sys3_state" where
  "spineOf templates qid v =
     spineLoop templates SPINE_LENGTH 0
       \<lparr>roadPieces = [], occupiedCells = occupiedCells v, rnd = rnd v,
        branches = [], seedState = SEED, spinePos = (0, 0, 0), spineQuat = qid\<rparr>"

definition spawnSpineAndBranchSystem3 ::
  "(string \<rightharpoonup> 'q template) \<Rightarrow> 'q \<Rightarrow> 'q viewer \<Rightarrow> 'q sys3_state" where
  "spawnSpineAndBranchSystem3 templates qid v =
     (let st = spineOf templates qid v in walkBranches templates st (branches st))"

text \<open>
  The seed before position \<open>i\<close> of the spine, and whether position \<open>i\<close> draws a junction.
\<close>

fun seed_at :: "nat \<Rightarrow> 32 word" where
  "seed_at 0 = SEED"
| "seed_at (Suc i) = snd (chooseRoadX i (seed_at i))"

definition useRoadX_at :: "nat \<Rightarrow> bool" where
  "useRoadX_at i = fst (chooseRoadX i (seed_at i))"


text \<open>
  A chain of pieces that starts at a transform: the first piece has that position and
  quaternion, and every later piece has the world transform of the \<open>socket_out\<close> of the
  piece before it.
\<close>

fun chain_from :: "vec3 \<Rightarrow> 'q \<Rightarrow> 'q piece list \<Rightarrow> bool" where
  "chain_from pos quat [] = True"
| "chain_from pos quat (p # ps) =
     (position (placement p) = pos \<and> quaternion (placement p) = quat \<and>
      (ps = [] \<or>
       (case getSocketTransform3 p ''socket_out'' of
          None \<Rightarrow> False
        | Some next \<Rightarrow> chain_from (fst next) (snd next) ps)))"

text \<open>The straight template is loaded and has an exit socket.\<close>

definition road1_ok :: "(string \<rightharpoonup> 'q template) \<Rightarrow> bool" where
  "road1_ok templates \<longleftrightarrow>
     (\<exists>t. templates ''Road1'' = Some t \<and> findSocket (t_nodes t) ''socket_out'' \<noteq> None)"

text \<open>
  The invariant of the spine loop before position \<open>i\<close>, and what holds of the state in
  which the loop ends.
\<close>

definition spine_pieces_ok :: "'q piece list \<Rightarrow> bool" where
  "spine_pieces_ok ps \<longleftrightarrow>
     (\<forall>k < length ps. pkey (ps ! k) = (if useRoadX_at k then ''RoadX'' else ''Road1''))"

definition spine_fin :: "(string \<rightharpoonup> 'q template) \<Rightarrow> cell set \<Rightarrow> 'q sys3_state \<Rightarrow> bool" where
  "spine_fin templates occ st \<longleftrightarrow>
     length (roadPieces st) \<le> SPINE_LENGTH \<and>
     spine_pieces_ok (roadPieces st) \<and>
     branches st = concat (map junctionBranches (filter (\<lambda>p. pkey p = ''RoadX'') (roadPieces st))) \<and>
     (branches st \<noteq> [] \<longrightarrow> road1_ok templates) \<and>
     occupiedCells st = occ"

definition spine_inv :: "(string \<rightharpoonup> 'q template) \<Rightarrow> cell set \<Rightarrow> nat \<Rightarrow> 'q sys3_state \<Rightarrow> bool" where
  "spine_inv templates occ i st \<longleftrightarrow>
     seedState st = seed_at i \<and>
     length (roadPieces st) = i \<and>
     spine_pieces_ok (roadPieces st) \<and>
     branches st = concat (map junctionBranches (filter (\<lambda>p. pkey p = ''RoadX'') (roadPieces st))) \<and>
     (0 < i \<longrightarrow> road1_ok templates) \<and>
     occupiedCells st = occ"

section \<open>RoadManager (core/RoadManager.js)\<close>

text \<open>
  \<open>Math.atan2\<close> and the rotation of a vector about the vertical axis that
  \<open>applyAxisAngle(new THREE.Vector3(0, 1, 0), angle)\<close> performs.
\<close>

definition atan2 :: "real \<Rightarrow> real \<Rightarrow> real" where
  "atan2 b a =
     (if a > 0 then arctan (b / a)
      else if a < 0 \<and> b \<ge> 0 then arctan (b / a) + pi
      else if a < 0 \<and> b < 0 then arctan (b / a) - pi
      else if b > 0 then pi / 2
      else if b < 0 then - pi / 2
      else 0)"

definition applyAxisAngleY :: "real \<Rightarrow> vec3 \<Rightarrow> vec3" where
  "applyAxisAngleY angle v =
     (vx v * cos angle + vz v * sin angle, vy v, vz v * cos angle - vx v * sin angle)"

definition vadd :: "vec3 \<Rightarrow> vec3 \<Rightarrow> vec3" where
  "vadd a b = (vx a + vx b, vy a + vy b, vz a + vz b)"

definition vsub :: "vec3 \<Rightarrow> vec3 \<Rightarrow> vec3" where
  "vsub a b = (vx a - vx b, vy a - vy b, vz a - vz b)"

text \<open>
  A segment template carries the local in-point and out-point, the extra rotation of the
  road direction at the exit, and the selection weight. \<open>segmentTemplates\<close> is the
  JavaScript \<open>Map\<close>, an association list in insertion order. The pooled segment objects
  of one type all carry clones of the in-point, out-point and exit rotation of their
  template, and no code changes them; \<open>pool.acquire()\<close> therefore yields a segment with
  these values whichever object it returns (the pool itself is the subject of the first
  section), and a segment is modelled by its values: the position and the vertical rotation
  of its mesh, its type and the three template values.
\<close>

record rm_template =
  tpl_inPoint :: vec3
  tpl_outPoint :: vec3
  tpl_outRotation :: real
  tpl_weight :: real

record segment =
  mesh_position :: vec3
  mesh_rotation_y :: real
  seg_type :: string
  inPoint :: vec3
  outPoint :: vec3
  outRotation :: real
  worldZ :: real

record rm_state =
  activeSegments :: "segment list"
  currentEndPosition :: vec3
  currentEndDirection :: vec3
  rm_rnd :: nat

datatype rm_error = TypeError

definition segmentsAheadTarget :: nat where
  "segmentsAheadTarget = 10"

definition segmentsBehindLimit :: nat where
  "segmentsBehindLimit = 3"

definition defaultSegmentLength :: real where
  "defaultSegmentLength = 20"

definition rm_initial :: "nat \<Rightarrow> rm_state" where
  "rm_initial k0 =
     \<lparr>activeSegments = [], currentEndPosition = (0, 0, 0), currentEndDirection = (0, 0, - 1),
      rm_rnd = k0\<rparr>"

text \<open>
  \<open>selectRandomSegmentType\<close>: the roulette over the weights, with the first type as the
  fallback; reading \<open>types[0][0]\<close> of an empty map is a \<open>TypeError\<close>.
\<close>

fun roulette :: "real \<Rightarrow> (string \<times> rm_template) list \<Rightarrow> string option" where
  "roulette random [] = None"
| "roulette random ((name, template) # rest) =
     (if random - tpl_weight template \<le> 0 then Some name
      else roulette (random - tpl_weight template) rest)"

definition selectRandomSegmentType ::
  "(string \<times> rm_template) list \<Rightarrow> real \<Rightarrow> rm_error + string" where
  "selectRandomSegmentType types r =
     (let totalWeight = sum_list (map (\<lambda>(name, t). tpl_weight t) types)
      in case roulette (r * totalWeight) types of
           Some name \<Rightarrow> Inr name
         | None \<Rightarrow> (case types of [] \<Rightarrow> Inl TypeError | (name, t) # rest \<Rightarrow> Inr name))"

text \<open>\<open>Map.prototype.get\<close>: the value of the first entry with the key.\<close>

definition addSegmentAhead ::
  "(string \<times> rm_template) list \<Rightarrow> (nat \<Rightarrow> real) \<Rightarrow> rm_state \<Rightarrow> rm_error + rm_state" where
  "addSegmentAhead segmentTemplates rand st =
     (case selectRandomSegmentType segmentTemplates (rand (rm_rnd st)) of
        Inl e \<Rightarrow> Inl e
      | Inr segmentType \<Rightarrow>
          (case map_of segmentTemplates segmentType of
             None \<Rightarrow> Inl TypeError
           | Some template \<Rightarrow>
               (let angle = atan2 (vx (currentEndDirection st)) (- vz (currentEndDirection st));
                    rotatedInPoint = applyAxisAngleY angle (tpl_inPoint template);
                    pos = vsub (currentEndPosition st) rotatedInPoint;
                    rotatedOutPoint = applyAxisAngleY angle (tpl_outPoint template);
                    seg = \<lparr>mesh_position = pos, mesh_rotation_y = angle, seg_type = segmentType,
                           inPoint = tpl_inPoint template, outPoint = tpl_outPoint template,
                           outRotation = tpl_outRotation template, worldZ = vz pos\<rparr>
                in Inr (st\<lparr>activeSegments := activeSegments st @ [seg],
                          currentEndPosition := vadd pos rotatedOutPoint,
                          currentEndDirection :=
                            (if tpl_outRotation template \<noteq> 0
                             then applyAxisAngleY (tpl_outRotation template) (currentEndDirection st)
                             else currentEndDirection st),
                          rm_rnd := Suc (rm_rnd st)\<rparr>))))"

fun addSegments ::
  "(string \<times> rm_template) list \<Rightarrow> (nat \<Rightarrow> real) \<Rightarrow> nat \<Rightarrow> rm_state \<Rightarrow> rm_error + rm_state" where
  "addSegments segmentTemplates rand 0 st = Inr st"
| "addSegments segmentTemplates rand (Suc n) st =
     (case addSegmentAhead segmentTemplates rand st of
        Inl e \<Rightarrow> Inl e
      | Inr st' \<Rightarrow> addSegments segmentTemplates rand n st')"

definition generateInitialRoad ::
  "(string \<times> rm_template) list \<Rightarrow> (nat \<Rightarrow> real) \<Rightarrow> rm_state \<Rightarrow> rm_error + rm_state" where
  "generateInitialRoad segmentTemplates rand st =
     addSegments segmentTemplates rand segmentsAheadTarget st"

definition recycleOldestSegment :: "rm_state \<Rightarrow> rm_state" where
  "recycleOldestSegment st =
     (if length (activeSegments st) = 0 then st
      else st\<lparr>activeSegments := tl (activeSegments st)\<rparr>)"

text \<open>
  \<open>update\<close>: count the segments behind and ahead of the player, recycle from the
  front while more than three are behind and the oldest is far enough back, then add
  segments until ten are ahead.
\<close>

fun recycleLoop :: "nat \<Rightarrow> real \<Rightarrow> segment list \<Rightarrow> rm_state \<Rightarrow> rm_state" where
  "recycleLoop segmentsBehind playerZ [] st = st"
| "recycleLoop segmentsBehind playerZ (oldest # rest) st =
     (if segmentsBehind > segmentsBehindLimit \<and> length (activeSegments st) > 0
      then (if vz (mesh_position oldest) > playerZ + defaultSegmentLength * 2
            then recycleLoop (segmentsBehind - 1) playerZ rest (recycleOldestSegment st)
            else st)
      else st)"

definition update :: 
  "(string \<times> rm_template) list \<Rightarrow> (nat \<Rightarrow> real) \<Rightarrow> vec3 \<Rightarrow> rm_state \<Rightarrow> rm_error + rm_state" where
  "update segmentTemplates rand playerPosition st =
     (let segmentsBehind = length (filter (\<lambda>s. vz (mesh_position s) > vz playerPosition) (activeSegments st));
          segmentsAhead = length (filter (\<lambda>s. \<not> vz (mesh_position s) > vz playerPosition) (activeSegments st));
          st1 = recycleLoop segmentsBehind (vz playerPosition) (activeSegments st) st
      in addSegments segmentTemplates rand (segmentsAheadTarget - segmentsAhead) st1)"

datatype rm_op = AddSegmentAhead | RecycleOldestSegment | Update vec3

fun rm_exec ::
  "(string \<times> rm_template) list \<Rightarrow> (nat \<Rightarrow> real) \<Rightarrow> rm_state \<Rightarrow> rm_op \<Rightarrow> rm_error + rm_state" where
  "rm_exec segmentTemplates rand st AddSegmentAhead = addSegmentAhead segmentTemplates rand st"
| "rm_exec segmentTemplates rand st RecycleOldestSegment = Inr (recycleOldestSegment st)"
| "rm_exec segmentTemplates rand st (Update playerPosition) =
     update segmentTemplates rand playerPosition st"

fun rm_run ::
  "(string \<times> rm_template) list \<Rightarrow> (nat \<Rightarrow> real) \<Rightarrow> rm_state \<Rightarrow> rm_op list \<Rightarrow> rm_error + rm_state" where
  "rm_run segmentTemplates rand st [] = Inr st"
| "rm_run segmentTemplates rand st (op # ops) =
     (case rm_exec segmentTemplates rand st op of
        Inl e \<Rightarrow> Inl e
      | Inr st' \<Rightarrow> rm_run segmentTemplates rand st' ops)"

text \<open>
  The world position of the in-point and of the out-point of a placed segment, and the
  chain property: every segment but the first has its in-point where the segment before it
  has its out-point.
\<close>

definition entry_point :: "segment \<Rightarrow> vec3" where
  "entry_point s = vadd (mesh_position s) (applyAxisAngleY (mesh_rotation_y s) (inPoint s))"

definition exit_point :: "segment \<Rightarrow> vec3" where
  "exit_point s = vadd (mesh_position s) (applyAxisAngleY (mesh_rotation_y s) (outPoint s))"

fun segments_connected :: "segment list \<Rightarrow> bool" where
  "segments_connected (s # s' # rest) = (entry_point s' = exit_point s \<and> segments_connected (s' # rest))"
| "segments_connected segs = True"

definition rm_inv :: "rm_state \<Rightarrow> bool" where
  "rm_inv st \<longleftrightarrow>
     segments_connected (activeSegments st) \<and>
     (activeSegments st \<noteq> [] \<longrightarrow> currentEndPosition st = exit_point (last (activeSegments st)))"


section \<open>BuildingManager (core/BuildingManager.js)\<close>

text \<open>
  A cell key \<open>`${cx}_${cz}`\<close> is the pair of the two integers. The pooled building objects
  are the natural numbers that the pool's factory returns, one new number at each call;
  an active building is modelled by its object and the fields the manager reads back: the
  \<open>x\<close> position of its mesh, \<open>worldZ\<close> and the side. The factory draws one random number
  (the template selection), and \<open>spawnBuilding\<close> draws one more (the rotation); both only
  advance the count of random calls here.
\<close>

record building =
  b_object :: nat
  b_x :: real
  b_worldZ :: real
  b_side :: string

record bm_state =
  activeBuildings :: "building list"
  buildingPool :: "nat ObjectPool"
  bm_occupiedCells :: "cell set"
  lastSpawnZ :: real
  bm_rnd :: nat

definition roadWidth :: real where "roadWidth = 12"
definition sidewalkWidth :: real where "sidewalkWidth = 3"
definition buildingSetback :: real where "buildingSetback = 2"
definition gridCellSize :: real where "gridCellSize = 15"
definition spawnDistance :: real where "spawnDistance = 200"
definition despawnDistance :: real where "despawnDistance = 50"
definition rowsPerSide :: nat where "rowsPerSide = 2"

text \<open>
  The manager after \<open>init\<close>: the pool pre-populated with 30 buildings, nothing active,
  \<open>k0\<close> random calls made so far.
\<close>

definition bm_initial :: "nat \<Rightarrow> bm_state" where
  "bm_initial k0 =
     \<lparr>activeBuildings = [], buildingPool = newObjectPool (\<lambda>i. i) 30, bm_occupiedCells = {},
      lastSpawnZ = 0, bm_rnd = k0\<rparr>"

definition buildingCellKey :: "real \<Rightarrow> real \<Rightarrow> cell" where
  "buildingCellKey a b = (\<lfloor>a / gridCellSize\<rfloor>, \<lfloor>b / gridCellSize\<rfloor>)"

definition spawnBuilding :: "real \<Rightarrow> real \<Rightarrow> string \<Rightarrow> bm_state \<Rightarrow> bm_state" where
  "spawnBuilding a b side st =
     (let res = acquire (\<lambda>i. i) (buildingPool st);
          factoryCalls = created (snd res) - created (buildingPool st)
      in st\<lparr>buildingPool := snd res,
            activeBuildings := activeBuildings st @
              [\<lparr>b_object = fst res, b_x = a, b_worldZ = b, b_side = side\<rparr>],
            bm_rnd := bm_rnd st + factoryCalls + 1\<rparr>)"

text \<open>
  One lot of \<open>generateSection\<close> at grid row \<open>z\<close>: \<open>a\<close> is the jittered \<open>x\<close> (its random
  number already drawn). The second random number is drawn only when the cell is free, the
  third only when a building is spawned.
\<close>

definition tryLot :: "(nat \<Rightarrow> real) \<Rightarrow> real \<Rightarrow> real \<Rightarrow> string \<Rightarrow> bm_state \<Rightarrow> bm_state" where
  "tryLot rand a z side st =
     (let cellKey = buildingCellKey a z
      in if cellKey \<notin> bm_occupiedCells st
         then (if rand (bm_rnd st) > 2 / 10
               then (let st1 = spawnBuilding a (z + rand (Suc (bm_rnd st)) * 5) side
                                 (st\<lparr>bm_rnd := Suc (Suc (bm_rnd st))\<rparr>)
                     in st1\<lparr>bm_occupiedCells := insert cellKey (bm_occupiedCells st1)\<rparr>)
               else st\<lparr>bm_rnd := Suc (bm_rnd st)\<rparr>)
         else st)"

definition leftLot :: "(nat \<Rightarrow> real) \<Rightarrow> real \<Rightarrow> bm_state \<Rightarrow> nat \<Rightarrow> bm_state" where
  "leftLot rand z st row =
     (let leftEdge = - roadWidth / 2 - sidewalkWidth - buildingSetback;
          a = leftEdge - real row * gridCellSize - rand (bm_rnd st) * 5
      in tryLot rand a z ''left'' (st\<lparr>bm_rnd := Suc (bm_rnd st)\<rparr>))"

definition rightLot :: "(nat \<Rightarrow> real) \<Rightarrow> real \<Rightarrow> bm_state \<Rightarrow> nat \<Rightarrow> bm_state" where
  "rightLot rand z st row =
     (let rightEdge = roadWidth / 2 + sidewalkWidth + buildingSetback;
          a = rightEdge + real row * gridCellSize + rand (bm_rnd st) * 5
      in tryLot rand a z ''right'' (st\<lparr>bm_rnd := Suc (bm_rnd st)\<rparr>))"

definition sectionRow :: "(nat \<Rightarrow> real) \<Rightarrow> real \<Rightarrow> bm_state \<Rightarrow> bm_state" where
  "sectionRow rand z st =
     foldl (rightLot rand z) (foldl (leftLot rand z) st [0..<rowsPerSide]) [0..<rowsPerSide]"

text \<open>\<open>for (let z = startZ; z > endZ; z -= gridCellSize)\<close>.\<close>

function generateSection :: "(nat \<Rightarrow> real) \<Rightarrow> real \<Rightarrow> real \<Rightarrow> bm_state \<Rightarrow> bm_state" where
  "generateSection rand z endZ st =
     (if z > endZ then generateSection rand (z - gridCellSize) endZ (sectionRow rand z st) else st)"
  by pat_completeness auto
termination
proof (relation "measure (\<lambda>(rand, z, endZ, st). nat \<lceil>(z - endZ) / gridCellSize\<rceil>)")
  show "wf (measure (\<lambda>(rand, z, endZ, st). nat \<lceil>(z - endZ) / gridCellSize\<rceil>))" by simp
next
  fix rand :: "nat \<Rightarrow> real" and z endZ :: real and st :: bm_state
  assume "endZ < z"
  then have "0 < \<lceil>(z - endZ) / 15\<rceil>" by (simp add: less_ceiling_iff)
  moreover have "\<lceil>(z - 15 - endZ) / 15\<rceil> = \<lceil>(z - endZ) / 15\<rceil> - 1"
  proof -
    have "(z - 15 - endZ) / 15 = (z - endZ) / 15 - 1" by (simp add: field_simps)
    then show ?thesis by (simp only: ceiling_diff_one)
  qed
  ultimately show "((rand, z - gridCellSize, endZ, sectionRow rand z st), (rand, z, endZ, st))
        \<in> measure (\<lambda>(rand, z, endZ, st). nat \<lceil>(z - endZ) / gridCellSize\<rceil>)"
    by (simp add: gridCellSize_def)
qed

declare generateSection.simps [simp del]

text \<open>
  The despawn pass of \<open>update\<close> over the active buildings, in order: a building behind the
  despawn line is released to the pool and the cell key computed from its mesh \<open>x\<close> and
  its \<open>worldZ\<close> is deleted from the occupied set.
\<close>

definition despawnOne :: "real \<Rightarrow> bm_state \<Rightarrow> building \<Rightarrow> bm_state" where
  "despawnOne despawnZ st b =
     (if b_worldZ b > despawnZ
      then st\<lparr>buildingPool := fst (release True (buildingPool st) (b_object b)),
              bm_occupiedCells := bm_occupiedCells st - {buildingCellKey (b_x b) (b_worldZ b)}\<rparr>
      else st)"

definition building_update :: "(nat \<Rightarrow> real) \<Rightarrow> vec3 \<Rightarrow> bm_state \<Rightarrow> bm_state" where
  "building_update rand playerPosition st =
     (let playerZ = vz playerPosition;
          targetSpawnZ = playerZ - spawnDistance;
          st1 = (if lastSpawnZ st > targetSpawnZ
                 then (generateSection rand (lastSpawnZ st) targetSpawnZ st)\<lparr>lastSpawnZ := targetSpawnZ\<rparr>
                 else st);
          despawnZ = playerZ + despawnDistance;
          st2 = foldl (despawnOne despawnZ) st1 (activeBuildings st1)
      in st2\<lparr>activeBuildings := filter (\<lambda>b. \<not> b_worldZ b > despawnZ) (activeBuildings st1)\<rparr>)"

definition initializeArea :: "(nat \<Rightarrow> real) \<Rightarrow> vec3 \<Rightarrow> bm_state \<Rightarrow> bm_state" where
  "initializeArea rand startPosition st =
     (let st1 = st\<lparr>lastSpawnZ := vz startPosition + 50\<rparr>
      in generateSection rand (lastSpawnZ st1) (vz startPosition - spawnDistance) st1)"


section \<open>Example templates\<close>

text \<open>
  Concrete templates on which the definitions can be run: the quaternion is a heading in
  quarter turns about the vertical axis, and a template has a root node and one socket
  node at a fixed local offset, which the placement of the root scales, rotates and
  translates; the socket turns the heading by a fixed number of quarter turns, the other
  way in a mirrored clone.
\<close>

definition quarter_turns :: "int \<Rightarrow> vec3 \<Rightarrow> vec3" where
  "quarter_turns h v =
     (if h mod 4 = 0 then v
      else if h mod 4 = 1 then (vz v, vy v, - vx v)
      else if h mod 4 = 2 then (- vx v, vy v, - vz v)
      else (- vz v, vy v, vx v))"

definition root_node :: "string \<Rightarrow> int node" where
  "root_node name = \<lparr>node_name = name, world_of = (\<lambda>pl. (position pl, quaternion pl))\<rparr>"

definition rigid_node :: "string \<Rightarrow> vec3 \<Rightarrow> int \<Rightarrow> int node" where
  "rigid_node name local turn =
     \<lparr>node_name = name,
      world_of = (\<lambda>pl.
        (let r = quarter_turns (quaternion pl)
                   (vx (scale pl) * vx local, vy (scale pl) * vy local, vz (scale pl) * vz local)
         in ((vx (position pl) + vx r, vy (position pl) + vy r, vz (position pl) + vz r),
             quaternion pl + (if vx (scale pl) < 0 then - turn else turn))))\<rparr>"

definition rigid_template :: "string \<Rightarrow> vec3 \<Rightarrow> int \<Rightarrow> int template" where
  "rigid_template socketName local turn =
     \<lparr>t_nodes = [root_node ''Scene'', rigid_node socketName local turn],
      t_placement = \<lparr>position = (0, 0, 0), quaternion = 0, scale = (1, 1, 1)\<rparr>\<rparr>"


text \<open>
  Two templates for \<open>spawnProceduralRoadSystem1\<close>: a straight piece and a curve that
  turns a quarter; the other two keys failed to load.
\<close>

definition system1_templates :: "string \<rightharpoonup> int template" where
  "system1_templates =
     [''road_long'' \<mapsto> rigid_template ''socket_out'' (0, 0, 2) 0,
      ''road_curve_wide'' \<mapsto> rigid_template ''Socket_Out'' (3, 0, 3) 1]"

definition sys1_init :: "nat \<Rightarrow> 'q sys1_state" where
  "sys1_init k0 =
     \<lparr>roadPieces = [], occupiedCells = {}, rnd = k0, recentCellSets = [],
      lastCurveDir = 0, sameDirCount = 0, straightsSinceCurve = 99\<rparr>"


text \<open>
  The state of \<open>spawnProceduralRoadSystem1\<close> after three pieces on these templates,
  with a random source that always returns 0, and the fourth candidate, the backward
  piece, placed at the frontier.
\<close>

definition zero_rand :: "nat \<Rightarrow> real" where
  "zero_rand k = 0"







text \<open>
  Templates for \<open>spawnSpineAndBranchSystem3\<close>: a straight piece, and a junction with an
  exit ahead and branch sockets to the left and to the right.
\<close>

definition junction_template :: "int template" where
  "junction_template =
     \<lparr>t_nodes = [root_node ''Scene'', rigid_node ''socket_out'' (0, 0, 4) 0,
                 rigid_node ''socket_left'' (2, 0, 2) 1, rigid_node ''socket_right'' (- 2, 0, 2) (- 1)],
      t_placement = \<lparr>position = (0, 0, 0), quaternion = 0, scale = (1, 1, 1)\<rparr>\<rparr>"

definition system3_templates :: "string \<rightharpoonup> int template" where
  "system3_templates =
     [''Road1'' \<mapsto> rigid_template ''socket_out'' (0, 0, 4) 0, ''RoadX'' \<mapsto> junction_template]"

definition empty_viewer :: "int viewer" where
  "empty_viewer = \<lparr>roadPieces = [], occupiedCells = {}, rnd = 0\<rparr>"

text \<open>The straight placeholder segment of \<open>createPlaceholderSegments\<close>.\<close>

definition straight_only :: "(string \<times> rm_template) list" where
  "straight_only =
     [(''straight'', \<lparr>tpl_inPoint = (0, 0, 10), tpl_outPoint = (0, 0, - 20),
                      tpl_outRotation = 0, tpl_weight = 3\<rparr>)]"

text \<open>
  A random source whose first three numbers are one half and whose later numbers are zero,
  and the manager after \<open>initializeArea\<close> at \<open>z = -36\<close> followed by \<open>update\<close> with the
  player at \<open>z = -40\<close>.
\<close>

definition early_rand :: "nat \<Rightarrow> real" where
  "early_rand k = (if k < 3 then 1 / 2 else 0)"

definition leak_after_init :: bm_state where
  "leak_after_init = initializeArea early_rand (0, 0, - 36) (bm_initial 0)"

definition leak_after_update :: bm_state where
  "leak_after_update = building_update early_rand (0, 0, - 40) leak_after_init"


subsection \<open>The object pool\<close>

lemma pool_inv_new: "inj createFn \<Longrightarrow> pool_inv createFn (newObjectPool createFn n)"
  by (auto simp: pool_inv_def newObjectPool_def distinct_map inj_on_def inj_def)

lemma fresh_not_in:
  assumes "inj createFn" "pool_inv createFn p"
  shows "createFn (created p) \<notin> set (available p) \<union> set (inUse p)"
proof
  assume "createFn (created p) \<in> set (available p) \<union> set (inUse p)"
  with assms(2) obtain i where "i < created p" "createFn (created p) = createFn i"
    unfolding pool_inv_def by blast
  with assms(1) show False by (auto dest: injD)
qed

lemma pool_inv_acquire:
  assumes "inj createFn" "pool_inv createFn p"
  shows "pool_inv createFn (snd (acquire createFn p))"
proof (cases "available p = []")
  case True
  from fresh_not_in[OF assms] have f: "createFn (created p) \<notin> set (inUse p)" by simp
  from assms(2) True f show ?thesis
    by (auto simp: pool_inv_def acquire_def set_add_def Let_def less_Suc_eq)
next
  case False
  then have l: "last (available p) \<in> set (available p)" by simp
  with assms(2) have n: "last (available p) \<notin> set (inUse p)"
    unfolding pool_inv_def by blast
  have d: "distinct (butlast (available p))" using assms(2) by (simp add: pool_inv_def distinct_butlast)
  have nb: "last (available p) \<notin> set (butlast (available p))"
    using assms(2) False unfolding pool_inv_def
    by (metis append_butlast_last_id distinct_append disjoint_iff list.simps(15) insertI1)
  from assms(2) False n d nb l show ?thesis
    by (auto simp: pool_inv_def acquire_def set_add_def Let_def dest: in_set_butlastD)
qed

lemma pool_inv_release: "pool_inv createFn p \<Longrightarrow> pool_inv createFn (fst (release r p obj))"
  by (auto simp: pool_inv_def release_def set_delete_def distinct_removeAll)

lemma pool_inv_releaseAll: "pool_inv createFn p \<Longrightarrow> pool_inv createFn (fst (releaseAll r p))"
  by (auto simp: pool_inv_def releaseAll_def)

lemma pool_inv_dispose: "pool_inv createFn (fst (dispose p))"
  by (simp add: pool_inv_def dispose_def)

lemma pool_inv_exec:
  "inj createFn \<Longrightarrow> pool_inv createFn p \<Longrightarrow> pool_inv createFn (exec_op createFn r p op)"
  by (cases op) (simp_all add: pool_inv_acquire pool_inv_release pool_inv_releaseAll pool_inv_dispose)

lemma pool_inv_run:
  "inj createFn \<Longrightarrow> pool_inv createFn p \<Longrightarrow> pool_inv createFn (run_ops createFn r p ops)"
  unfolding run_ops_def by (induction ops arbitrary: p) (simp_all add: pool_inv_exec)


lemma release_in_use:
  "obj \<in> set (inUse p) \<Longrightarrow>
   fst (release r p obj) = p\<lparr>inUse := removeAll obj (inUse p), available := available p @ [obj]\<rparr>"
  by (simp add: release_def set_delete_def)

lemma release_list_available:
  "distinct xs \<Longrightarrow> set xs \<subseteq> set (inUse p) \<Longrightarrow>
   available (release_list r p xs) = available p @ xs"
proof (induction xs arbitrary: p)
  case Nil
  then show ?case by (simp add: release_list_def)
next
  case (Cons x xs)
  let ?q = "fst (release r p x)"
  from Cons.prems have x: "x \<in> set (inUse p)" by simp
  have "set xs \<subseteq> set (inUse ?q)"
    using Cons.prems by (auto simp: release_in_use [OF x])
  with Cons.IH [of ?q] Cons.prems have "available (release_list r ?q xs) = available ?q @ xs"
    by simp
  then show ?case by (simp add: release_list_def release_in_use [OF x])
qed

lemma acquire_n_pops:
  "fst (acquire_n createFn (length xs) (p\<lparr>available := ys @ xs\<rparr>)) = rev xs"
proof (induction xs arbitrary: p rule: rev_induct)
  case Nil
  then show ?case by simp
next
  case (snoc x xs)
  have "snd (acquire createFn (p\<lparr>available := ys @ xs @ [x]\<rparr>))
        = (p\<lparr>inUse := set_add x (inUse p)\<rparr>)\<lparr>available := ys @ xs\<rparr>"
    by (simp add: acquire_def Let_def butlast_append)
  moreover have "fst (acquire createFn (p\<lparr>available := ys @ xs @ [x]\<rparr>)) = x"
    by (simp add: acquire_def Let_def)
  ultimately show ?case
    using snoc.IH [of "p\<lparr>inUse := set_add x (inUse p)\<rparr>"]
    by (simp add: case_prod_beta Let_def)
qed

lemma lifo_order:
  assumes "distinct xs" "set xs \<subseteq> set (inUse p)"
  shows "fst (acquire_n createFn (length xs) (release_list r p xs)) = rev xs"
proof -
  let ?q = "release_list r p xs"
  have "?q = ?q\<lparr>available := available p @ xs\<rparr>"
    using release_list_available [OF assms, of r] by simp
  then show ?thesis using acquire_n_pops [where createFn = createFn and xs = xs and p = ?q and ys = "available p"] by simp
qed

lemma scenario_state:
  assumes "inj createFn"
  shows "snd (acquire_n createFn 3 (newObjectPool createFn 0)) =
         \<lparr>available = [], inUse = [createFn 0, createFn 1, createFn 2], created = 3\<rparr>"
  by (simp add: numeral_3_eq_3 acquire_def newObjectPool_def set_add_def Let_def
        inj_eq [OF assms])

text \<open>
  C7. \<open>acquire\<close> pops the free list when it is not empty: it returns the element pushed
  last, removes it from the free list and marks it in use, without calling the factory. On an
  empty free list it returns the next factory result and marks it in use. An object released
  from use is returned by the next \<open>acquire\<close>, and objects released one after the other
  come back in reverse order. Scenario: after three acquisitions from an empty pool of
  initial size 0, releasing any two of the three objects and acquiring once returns the one
  released last, and \<open>stats.total\<close> is 3 (the factory returning a new object at each call).
\<close>

theorem acquire_lifo:
  fixes createFn :: "nat \<Rightarrow> 'a"
  shows
  "(available p \<noteq> [] \<longrightarrow>
      fst (acquire createFn p) = last (available p) \<and>
      available (snd (acquire createFn p)) = butlast (available p) \<and>
      fst (acquire createFn p) \<in> set (inUse (snd (acquire createFn p))) \<and>
      created (snd (acquire createFn p)) = created p) \<and>
   (available p = [] \<longrightarrow>
      fst (acquire createFn p) = createFn (created p) \<and>
      fst (acquire createFn p) \<in> set (inUse (snd (acquire createFn p))) \<and>
      created (snd (acquire createFn p)) = Suc (created p)) \<and>
   (obj \<in> set (inUse p) \<longrightarrow> fst (acquire createFn (fst (release r p obj))) = obj) \<and>
   (distinct xs \<and> set xs \<subseteq> set (inUse p) \<longrightarrow>
      fst (acquire_n createFn (length xs) (release_list r p xs)) = rev xs) \<and>
   (inj createFn \<longrightarrow>
      (let p3 = snd (acquire_n createFn 3 (newObjectPool createFn 0)) in
       \<forall>x \<in> set (inUse p3). \<forall>y \<in> set (inUse p3). x \<noteq> y \<longrightarrow>
         (let p5 = fst (release r (fst (release r p3 x)) y) in
          fst (acquire createFn p5) = y \<and>
          stats_total (stats (snd (acquire createFn p5))) = 3)))"
proof (intro conjI impI)
  assume i: "inj createFn"
  show "let p3 = snd (acquire_n createFn 3 (newObjectPool createFn 0)) in
       \<forall>x \<in> set (inUse p3). \<forall>y \<in> set (inUse p3). x \<noteq> y \<longrightarrow>
         (let p5 = fst (release r (fst (release r p3 x)) y) in
          fst (acquire createFn p5) = y \<and>
          stats_total (stats (snd (acquire createFn p5))) = 3)"
    unfolding scenario_state [OF i]
    by (auto simp: Let_def release_def acquire_def set_delete_def set_add_def stats_def
        inj_eq [OF i])
next
  assume "distinct xs \<and> set xs \<subseteq> set (inUse p)"
  then show "fst (acquire_n createFn (length xs) (release_list r p xs)) = rev xs"
    by (simp add: lifo_order)
qed (simp_all add: acquire_def release_def Let_def set_add_def set_delete_def)


lemma total_acquire:
  assumes "inj createFn" "pool_inv createFn p"
  shows "length (available (snd (acquire createFn p))) + length (inUse (snd (acquire createFn p)))
         + created p = length (available p) + length (inUse p) + created (snd (acquire createFn p))"
proof (cases "available p = []")
  case True
  from fresh_not_in [OF assms] have "createFn (created p) \<notin> set (inUse p)" by simp
  with True show ?thesis by (simp add: acquire_def Let_def set_add_def)
next
  case False
  then have "last (available p) \<in> set (available p)" by simp
  with assms(2) have "last (available p) \<notin> set (inUse p)"
    unfolding pool_inv_def by blast
  with False show ?thesis by (simp add: acquire_def Let_def set_add_def)
qed

lemma length_removeAll_distinct:
  "distinct xs \<Longrightarrow> x \<in> set xs \<Longrightarrow> Suc (length (removeAll x xs)) = length xs"
  by (induction xs) (auto simp: removeAll_id)

lemma total_release:
  assumes "pool_inv createFn p"
  shows "length (available (fst (release r p obj))) + length (inUse (fst (release r p obj)))
         = length (available p) + length (inUse p)"
proof (cases "obj \<in> set (inUse p)")
  case True
  from assms have "distinct (inUse p)" by (simp add: pool_inv_def)
  from length_removeAll_distinct [OF this True] True show ?thesis
    by (simp add: release_def set_delete_def)
next
  case False
  then show ?thesis by (simp add: release_def)
qed

lemma created_release: "created (fst (release r p obj)) = created p"
  by (simp add: release_def)

lemma total_exec:
  assumes "inj createFn" "pool_inv createFn p" "op \<noteq> Dispose"
  shows "stats_total (stats (exec_op createFn r p op)) + created p
         = stats_total (stats p) + created (exec_op createFn r p op)"
proof (cases op)
  case Acquire
  with total_acquire [OF assms(1,2)] show ?thesis by (simp add: stats_def)
next
  case (Release obj)
  with total_release [OF assms(2), of r obj] show ?thesis
    by (simp add: stats_def created_release)
next
  case ReleaseAll
  then show ?thesis by (simp add: stats_def releaseAll_def)
next
  case Dispose
  with assms(3) show ?thesis by simp
qed

lemma created_mono: "created p \<le> created (exec_op createFn r p op)"
  by (cases op) (simp_all add: acquire_def release_def releaseAll_def dispose_def Let_def)

lemma total_run_no_dispose:
  assumes "inj createFn" "pool_inv createFn p" "Dispose \<notin> set ops"
  shows "stats_total (stats (run_ops createFn r p ops)) + created p
         = stats_total (stats p) + created (run_ops createFn r p ops)"
  using assms(2,3)
proof (induction ops arbitrary: p)
  case Nil
  then show ?case by (simp add: run_ops_def)
next
  case (Cons op ops)
  let ?q = "exec_op createFn r p op"
  from Cons.prems have ne: "op \<noteq> Dispose" and rest: "Dispose \<notin> set ops" by auto
  have inv: "pool_inv createFn ?q" by (rule pool_inv_exec [OF assms(1) Cons.prems(1)])
  from Cons.IH [OF inv rest] total_exec [OF assms(1) Cons.prems(1) ne, of r]
  show ?case by (simp add: run_ops_def)
qed

text \<open>
  C8. \<open>release\<close> of an object that is not in use changes nothing and emits the warning.
  Hence a second \<open>release\<close> of the same object right after the first leaves the pool as
  the first call left it and emits the warning, whatever the pool and the object were; and
  in every pool reached from the constructor by public calls, the free list holds no object
  twice after the two calls.
\<close>

theorem release_guard:
  fixes createFn :: "nat \<Rightarrow> 'a"
  shows
  "(obj \<notin> set (inUse p) \<longrightarrow>
      release r p obj = (p, [Warn ''ObjectPool: Attempted to release an object not in use''])) \<and>
   release r (fst (release r p obj)) obj =
      (fst (release r p obj), [Warn ''ObjectPool: Attempted to release an object not in use'']) \<and>
   (inj createFn \<longrightarrow>
      distinct (available (fst (release r (fst (release r
         (run_ops createFn r (newObjectPool createFn n) ops) obj)) obj))))"
proof (intro conjI impI)
  assume i: "inj createFn"
  let ?p = "run_ops createFn r (newObjectPool createFn n) ops"
  have "pool_inv createFn ?p" by (rule pool_inv_run [OF i pool_inv_new [OF i]])
  then have "pool_inv createFn (fst (release r (fst (release r ?p obj)) obj))"
    by (intro pool_inv_release)
  then show "distinct (available (fst (release r (fst (release r ?p obj)) obj)))"
    by (simp add: pool_inv_def)
qed (simp_all add: release_def set_delete_def)

theorem release_guard_witness:
  "release True \<lparr>available = [4::nat], inUse = [2, 3], created = 5\<rparr> 7
     = (\<lparr>available = [4], inUse = [2, 3], created = 5\<rparr>,
        [Warn ''ObjectPool: Attempted to release an object not in use'']) \<and>
   release True (fst (release True \<lparr>available = [4::nat], inUse = [2, 3], created = 5\<rparr> 2)) 2
     = (\<lparr>available = [4, 2], inUse = [3], created = 5\<rparr>,
        [Warn ''ObjectPool: Attempted to release an object not in use'']) \<and>
   inj (\<lambda>i::nat. i) \<and>
   distinct (available (fst (release True (fst (release True
      (run_ops (\<lambda>i. i) True (newObjectPool (\<lambda>i. i) 1) [Acquire, Acquire]) 0)) 0)))"
proof -
  have i: "inj (\<lambda>i::nat. i)" by simp
  have s: "fst (release True \<lparr>available = [4::nat], inUse = [2, 3], created = 5\<rparr> 2)
            = \<lparr>available = [4, 2], inUse = [3], created = 5\<rparr>"
    by (simp add: release_def set_delete_def)
  have n: "(7::nat) \<notin> set (inUse \<lparr>available = [4::nat], inUse = [2, 3], created = 5\<rparr>)"
    by simp
  from release_guard [of 7 "\<lparr>available = [4::nat], inUse = [2, 3], created = 5\<rparr>" True
      "\<lambda>i. i" 1 "[Acquire, Acquire]"] n
  have a: "release True \<lparr>available = [4::nat], inUse = [2, 3], created = 5\<rparr> 7
     = (\<lparr>available = [4], inUse = [2, 3], created = 5\<rparr>,
        [Warn ''ObjectPool: Attempted to release an object not in use''])"
    by blast
  from release_guard [of 2 "\<lparr>available = [4::nat], inUse = [2, 3], created = 5\<rparr>" True
      "\<lambda>i. i" 1 "[Acquire, Acquire]"] s
  have b: "release True (fst (release True \<lparr>available = [4::nat], inUse = [2, 3], created = 5\<rparr> 2)) 2
     = (\<lparr>available = [4, 2], inUse = [3], created = 5\<rparr>,
        [Warn ''ObjectPool: Attempted to release an object not in use''])"
    by simp
  from release_guard [of 0 "\<lparr>available = [4::nat], inUse = [2, 3], created = 5\<rparr>" True
      "\<lambda>i. i" 1 "[Acquire, Acquire]"] i
  have c: "distinct (available (fst (release True (fst (release True
      (run_ops (\<lambda>i. i) True (newObjectPool (\<lambda>i. i) 1) [Acquire, Acquire]) 0)) 0)))"
    by blast
  from a b c i show ?thesis by blast
qed

text \<open>
  C9. In every pool reached from the constructor by public calls (the factory returning a new
  object at each call), \<open>stats\<close> reports \<open>available + inUse = total\<close>; as long as
  \<open>dispose\<close> has not been called, \<open>total\<close> is the number of factory calls made so far;
  \<open>acquire\<close>, \<open>release\<close> and \<open>releaseAll\<close> never decrease \<open>total\<close> and increase it
  by exactly the number of factory calls they make; \<open>dispose\<close> sets it to zero.
\<close>

theorem pool_conservation:
  fixes createFn :: "nat \<Rightarrow> 'a"
  assumes "inj createFn"
    and "p = run_ops createFn r (newObjectPool createFn n) ops"
  shows
  "stats_available (stats p) + stats_inUse (stats p) = stats_total (stats p) \<and>
   (Dispose \<notin> set ops \<longrightarrow> stats_total (stats p) = created p) \<and>
   (op \<noteq> Dispose \<longrightarrow>
      stats_total (stats p) \<le> stats_total (stats (exec_op createFn r p op)) \<and>
      stats_total (stats (exec_op createFn r p op)) - stats_total (stats p)
        = created (exec_op createFn r p op) - created p) \<and>
   stats_total (stats (exec_op createFn r p Dispose)) = 0"
proof -
  have inv0: "pool_inv createFn (newObjectPool createFn n)"
    by (rule pool_inv_new [OF assms(1)])
  have inv: "pool_inv createFn p"
    unfolding assms(2) by (rule pool_inv_run [OF assms(1) inv0])
  have a: "stats_available (stats p) + stats_inUse (stats p) = stats_total (stats p)"
    by (simp add: stats_def)
  have b: "stats_total (stats p) = created p" if "Dispose \<notin> set ops"
    using total_run_no_dispose [OF assms(1) inv0 that, of r]
    by (simp add: assms(2) stats_def newObjectPool_def)
  have c: "stats_total (stats p) \<le> stats_total (stats (exec_op createFn r p op)) \<and>
      stats_total (stats (exec_op createFn r p op)) - stats_total (stats p)
        = created (exec_op createFn r p op) - created p" if "op \<noteq> Dispose"
    using total_exec [OF assms(1) inv that, of r] created_mono [of p createFn r op]
    by linarith
  have d: "stats_total (stats (exec_op createFn r p Dispose)) = 0"
    by (simp add: stats_def dispose_def)
  from a b c d show ?thesis by blast
qed

text \<open>
  C10. In every pool reached from the constructor by \<open>acquire\<close>, \<open>release\<close>,
  \<open>releaseAll\<close> and \<open>dispose\<close> (the factory returning a new object at each call), the
  free list and the in-use set are disjoint and neither holds an object twice, so the object
  that \<open>acquire\<close> returns is not in use at the time of the call.
\<close>

theorem pool_structural_invariant:
  fixes createFn :: "nat \<Rightarrow> 'a"
  assumes "inj createFn"
    and "p = run_ops createFn r (newObjectPool createFn n) ops"
  shows "distinct (available p) \<and> distinct (inUse p) \<and>
         set (available p) \<inter> set (inUse p) = {} \<and>
         fst (acquire createFn p) \<notin> set (inUse p)"
proof -
  have inv: "pool_inv createFn p"
    unfolding assms(2) by (rule pool_inv_run [OF assms(1) pool_inv_new [OF assms(1)]])
  have "fst (acquire createFn p) \<notin> set (inUse p)"
  proof (cases "available p = []")
    case True
    with fresh_not_in [OF assms(1) inv] show ?thesis by (simp add: acquire_def Let_def)
  next
    case False
    then have "last (available p) \<in> set (available p)" by simp
    with inv have "last (available p) \<notin> set (inUse p)" unfolding pool_inv_def by blast
    with False show ?thesis by (simp add: acquire_def Let_def)
  qed
  with inv show ?thesis by (simp add: pool_inv_def)
qed

lemma pw: "run_ops (\<lambda>i. i) True (newObjectPool (\<lambda>i. i) 2) [Acquire, Acquire, Acquire, Release 0]
   = \<lparr>available = [0::nat], inUse = [1, 2], created = 3\<rparr>"
  by code_simp

theorem acquire_lifo_witness:
  "fst (acquire (\<lambda>i. i) \<lparr>available = [5, 7::nat], inUse = [1], created = 8\<rparr>) = 7 \<and>
   fst (acquire (\<lambda>i. i) \<lparr>available = [], inUse = [1::nat], created = 8\<rparr>) = 8 \<and>
   fst (acquire (\<lambda>i. i) (fst (release True \<lparr>available = [5, 7::nat], inUse = [1], created = 8\<rparr> 1))) = 1 \<and>
   fst (acquire_n (\<lambda>i. i) 2 (release_list True \<lparr>available = [5::nat], inUse = [1, 2, 3], created = 8\<rparr> [2, 3]))
     = [3, 2] \<and>
   inj (\<lambda>i::nat. i) \<and>
   (let p5 = fst (release True (fst (release True
                 (snd (acquire_n (\<lambda>i. i) 3 (newObjectPool (\<lambda>i. i) 0))) 2)) 0)
    in fst (acquire (\<lambda>i::nat. i) p5) = 0 \<and> stats_total (stats (snd (acquire (\<lambda>i. i) p5))) = 3)"
proof -
  have i: "inj (\<lambda>i::nat. i)" by simp
  have s: "snd (acquire_n (\<lambda>i::nat. i) 3 (newObjectPool (\<lambda>i. i) 0))
           = \<lparr>available = [], inUse = [0, 1, 2], created = 3\<rparr>"
    using scenario_state [OF i] by simp
  note A = acquire_lifo [of "\<lparr>available = [5, 7::nat], inUse = [1], created = 8\<rparr>"
      "\<lambda>i. i" 1 True "[]"]
  note B = acquire_lifo [of "\<lparr>available = [], inUse = [1, 2, 3::nat], created = 8\<rparr>"
      "\<lambda>i. i" 1 True "[2, 3]"]
  have a: "fst (acquire (\<lambda>i. i) \<lparr>available = [5, 7::nat], inUse = [1], created = 8\<rparr>) = 7"
    using A by simp
  have c: "fst (acquire (\<lambda>i. i) (fst (release True \<lparr>available = [5, 7::nat], inUse = [1], created = 8\<rparr> 1))) = 1"
    using A by simp
  have b: "fst (acquire (\<lambda>i. i) \<lparr>available = [], inUse = [1::nat], created = 8\<rparr>) = 8"
    using acquire_lifo [of "\<lparr>available = [], inUse = [1::nat], created = 8\<rparr>"
      "\<lambda>i. i" 1 True "[]"] by simp
  have d: "fst (acquire_n (\<lambda>i. i) 2 (release_list True \<lparr>available = [5::nat], inUse = [1, 2, 3], created = 8\<rparr> [2, 3]))
     = [3, 2]"
    using acquire_lifo [of "\<lparr>available = [5::nat], inUse = [1, 2, 3], created = 8\<rparr>"
      "\<lambda>i. i" 1 True "[2, 3]"] by (simp add: numeral_2_eq_2)
  have e: "let p5 = fst (release True (fst (release True
                 (snd (acquire_n (\<lambda>i. i) 3 (newObjectPool (\<lambda>i. i) 0))) 2)) 0)
    in fst (acquire (\<lambda>i::nat. i) p5) = 0 \<and> stats_total (stats (snd (acquire (\<lambda>i. i) p5))) = 3"
    using A i unfolding s by (simp add: Let_def)
  from a b c d e i show ?thesis by blast
qed

theorem pool_conservation_witness:
  "inj (\<lambda>i::nat. i) \<and>
   stats (run_ops (\<lambda>i. i) True (newObjectPool (\<lambda>i. i) 2) [Acquire, Acquire, Acquire, Release 0])
     = \<lparr>stats_available = 1, stats_inUse = 2, stats_total = 3\<rparr> \<and>
   created (run_ops (\<lambda>i. i) True (newObjectPool (\<lambda>i. i) 2) [Acquire, Acquire, Acquire, Release 0]) = 3 \<and>
   stats_total (stats (exec_op (\<lambda>i. i) True
      (run_ops (\<lambda>i. i) True (newObjectPool (\<lambda>i. i) 2) [Acquire, Acquire, Acquire, Release 0]) ReleaseAll)) \<ge> 3 \<and>
   stats_total (stats (exec_op (\<lambda>i. i) True
      (run_ops (\<lambda>i. i) True (newObjectPool (\<lambda>i. i) 2) [Acquire, Acquire, Acquire, Release 0]) Dispose)) = 0"
proof -
  have i: "inj (\<lambda>i::nat. i)" by simp
  have nd: "Dispose \<notin> set [Acquire, Acquire, Release (0::nat)]" by simp
  have ne: "ReleaseAll \<noteq> (Dispose :: nat pool_op)" by simp
  note T = pool_conservation [OF i refl, of True 2 "[Acquire, Acquire, Acquire, Release 0]" ReleaseAll]
  from T nd ne i show ?thesis by (simp add: pw stats_def)
qed

theorem pool_structural_invariant_witness:
  "inj (\<lambda>i::nat. i) \<and>
   distinct (available (run_ops (\<lambda>i. i) True (newObjectPool (\<lambda>i. i) 2) [Acquire, Acquire, Acquire, Release 0])) \<and>
   set (available (run_ops (\<lambda>i. i) True (newObjectPool (\<lambda>i. i) 2) [Acquire, Acquire, Acquire, Release 0])) \<inter>
   set (inUse (run_ops (\<lambda>i. i) True (newObjectPool (\<lambda>i. i) 2) [Acquire, Acquire, Acquire, Release 0])) = {} \<and>
   fst (acquire (\<lambda>i. i) (run_ops (\<lambda>i. i) True (newObjectPool (\<lambda>i. i) 2) [Acquire, Acquire, Acquire, Release 0]))
     \<notin> set (inUse (run_ops (\<lambda>i. i) True (newObjectPool (\<lambda>i. i) 2) [Acquire, Acquire, Acquire, Release 0]))"
proof -
  have i: "inj (\<lambda>i::nat. i)" by simp
  from pool_structural_invariant [OF i refl, of True 2 "[Acquire, Acquire, Acquire, Release 0]"] i
  show ?thesis by blast
qed

subsection \<open>The direction rules of \<open>spawnProceduralRoadSystem1\<close>\<close>

lemma shuffle_loop_set:
  "rand_ok rand \<Longrightarrow> i < length xs \<Longrightarrow> set (fst (shuffle_loop rand k i xs)) = set xs"
proof (induction i arbitrary: xs k)
  case 0
  then show ?case by simp
next
  case (Suc i)
  let ?j = "nat \<lfloor>rand k * real (Suc i + 1)\<rfloor>"
  from Suc.prems(1) have r: "0 \<le> rand k" "rand k < 1" by (auto simp: rand_ok_def)
  then have "rand k * real (Suc i + 1) < real (Suc i + 1)" by simp
  then have "\<lfloor>rand k * real (Suc i + 1)\<rfloor> < int (Suc i + 1)" by (simp add: floor_less_iff)
  then have j: "?j < length xs" using Suc.prems(2) by linarith
  let ?ys = "(xs[Suc i := xs ! ?j])[?j := xs ! Suc i]"
  have s: "set ?ys = set xs" using set_swap [OF Suc.prems(2) j] by simp
  have "i < length ?ys" using Suc.prems(2) by simp
  from Suc.IH [OF Suc.prems(1) this, of "Suc k"] s show ?case by (simp add: Let_def)
qed

lemma shuffleArray_set:
  "rand_ok rand \<Longrightarrow> set (fst (shuffleArray rand k xs)) = set xs"
proof (cases xs)
  case Nil
  then show ?thesis by (simp add: shuffleArray_def)
next
  case (Cons a as)
  assume "rand_ok rand"
  from shuffle_loop_set [OF this, of "length xs - 1" xs k] Cons show ?thesis
    by (simp add: shuffleArray_def)
qed

lemma tryCandidates_Some:
  "tryCandidates templates qid rc st cands = Some st' \<Longrightarrow>
   \<exists>cand \<in> set cands. \<exists>template.
      templates (fst cand) = Some template \<and>
      \<not> checkCollision1 (occupiedCells st)
           (sampleCenterline (placeCandidate qid (roadPieces st) template cand)) rc \<and>
      st' = commitPiece (placeCandidate qid (roadPieces st) template cand)
              (sampleCenterline (placeCandidate qid (roadPieces st) template cand)) cand st"
proof (induction cands)
  case Nil
  then show ?case by simp
next
  case (Cons cand rest)
  then show ?case
    by (cases "templates (fst cand)") (auto simp: Let_def split: if_splits)
qed

lemma placeCandidate_key [simp]: "pkey (placeCandidate qid ps template cand) = fst cand"
  by (simp add: placeCandidate_def Let_def case_prod_beta)

lemma placeCandidate_dir [simp]:
  "piece_dir (placeCandidate qid ps template cand) = dir_of (snd cand)"
  by (simp add: placeCandidate_def Let_def case_prod_beta piece_dir_def vx_def)

lemma no_long_run_snoc:
  "no_long_run (ds @ [d]) \<longleftrightarrow>
   no_long_run ds \<and> (2 \<le> length ds \<longrightarrow> \<not> (last (butlast ds) = last ds \<and> last ds = d))"
  by (induction ds rule: no_long_run.induct) auto

lemma tracker_ok_snoc:
  assumes "tracker_ok ds l s" "d \<noteq> 0" "\<not> (d = l \<and> 2 \<le> s)"
  shows "tracker_ok (ds @ [d]) d (if d = l then s + 1 else 1)"
  using assms by (cases "ds = []") (auto simp: tracker_ok_def butlast_append Suc_le_eq)

lemma no_long_run_step:
  assumes "tracker_ok ds l s" "no_long_run ds" "\<not> (d = l \<and> 2 \<le> s)"
  shows "no_long_run (ds @ [d])"
  using assms by (cases "ds = []") (auto simp: tracker_ok_def no_long_run_snoc Suc_le_eq split: if_splits)


lemma curve_dirs_snoc:
  "curve_dirs (ps @ [p]) = (if piece_is_curve p then curve_dirs ps @ [piece_dir p] else curve_dirs ps)"
  by (simp add: curve_dirs_def)

lemma piece_dir_nonzero: "piece_dir p \<noteq> 0"
  by (simp add: piece_dir_def dir_of_def)

lemma curves_follow_straights_snoc:
  assumes "curves_follow_straights ps"
    and "piece_is_curve p \<longrightarrow> ps \<noteq> [] \<and> \<not> piece_is_curve (last ps)"
  shows "curves_follow_straights (ps @ [p])"
  unfolding curves_follow_straights_def
proof (intro allI impI)
  fix i assume i: "i < length (ps @ [p])" and c: "piece_is_curve ((ps @ [p]) ! i)"
  show "0 < i \<and> \<not> piece_is_curve ((ps @ [p]) ! (i - 1))"
  proof (cases "i < length ps")
    case True
    with c have "piece_is_curve (ps ! i)" by (simp add: nth_append)
    with assms(1) True have "0 < i \<and> \<not> piece_is_curve (ps ! (i - 1))"
      unfolding curves_follow_straights_def by blast
    moreover have "i - 1 < length ps" using True by simp
    ultimately show ?thesis by (simp add: nth_append)
  next
    case False
    with i have e: "i = length ps" by simp
    with c have "piece_is_curve p" by simp
    with assms(2) have n: "ps \<noteq> []" and l: "\<not> piece_is_curve (last ps)" by auto
    from n have "last ps = ps ! (length ps - 1)" by (simp add: last_conv_nth)
    with e n l show ?thesis by (simp add: nth_append)
  qed
qed

lemma chain_inv_step:
  assumes inv: "chain_inv ps t"
    and allowed: "piece_is_curve p \<longrightarrow>
        ps \<noteq> [] \<and> MIN_STRAIGHTS_AFTER_CURVE \<le> snd (snd t) \<and>
        \<not> (piece_dir p = fst t \<and> MAX_SAME_DIR_CURVES \<le> fst (snd t))"
  shows "chain_inv (ps @ [p]) (track t p)"
proof -
  obtain l s ssc where t: "t = (l, s, ssc)" by (cases t)
  from inv t have a: "ssc = 0 \<longleftrightarrow> ps \<noteq> [] \<and> piece_is_curve (last ps)"
    and b: "tracker_ok (curve_dirs ps) l s"
    and c: "no_long_run (curve_dirs ps)"
    and d: "curves_follow_straights ps"
    by (auto simp: chain_inv_def)
  show ?thesis
  proof (cases "piece_is_curve p")
    case False
    with a b c d t show ?thesis
      by (simp add: chain_inv_def track_def curve_dirs_snoc curves_follow_straights_snoc)
  next
    case True
    with allowed t have ne: "ps \<noteq> []" and m: "1 \<le> ssc" and r: "\<not> (piece_dir p = l \<and> 2 \<le> s)"
      by (auto simp: MIN_STRAIGHTS_AFTER_CURVE_def MAX_SAME_DIR_CURVES_def)
    from m a ne have nl: "\<not> piece_is_curve (last ps)" by auto
    have 1: "tracker_ok (curve_dirs ps @ [piece_dir p]) (piece_dir p)
               (if piece_dir p = l then s + 1 else 1)"
      by (rule tracker_ok_snoc [OF b piece_dir_nonzero r])
    have 2: "no_long_run (curve_dirs ps @ [piece_dir p])"
      by (rule no_long_run_step [OF b c r])
    have 3: "curves_follow_straights (ps @ [p])"
      by (rule curves_follow_straights_snoc [OF d]) (use ne nl in simp)
    from True 1 2 3 t show ?thesis
      by (simp add: chain_inv_def track_def curve_dirs_snoc)
  qed
qed

lemma tracking_updateTracking:
  "pkey p = fst cand \<Longrightarrow> piece_dir p = dir_of (snd cand) \<Longrightarrow>
   tracking (updateTracking cand st) = track (tracking st) p"
  by (simp add: tracking_def updateTracking_def track_def piece_is_curve_def)

lemma roadPieces_updateTracking [simp]:
  "roadPieces (updateTracking cand st) = roadPieces st"
  by (simp add: updateTracking_def)

lemma commitPiece_fields:
  "roadPieces (commitPiece p samples cand st) = roadPieces st @ [p]"
  "pkey p = fst cand \<Longrightarrow> piece_dir p = dir_of (snd cand) \<Longrightarrow>
   tracking (commitPiece p samples cand st) = track (tracking st) p"
proof -
  show "roadPieces (commitPiece p samples cand st) = roadPieces st @ [p]"
    by (simp add: commitPiece_def Let_def)
  assume k: "pkey p = fst cand" "piece_dir p = dir_of (snd cand)"
  show "tracking (commitPiece p samples cand st) = track (tracking st) p"
    unfolding commitPiece_def Let_def
    by (subst tracking_updateTracking [OF k]) (simp add: tracking_def)
qed

lemma filterByRules_allowed:
  assumes "cand \<in> set (filterByRules st cands)" "isCurve (fst cand)"
  shows "MIN_STRAIGHTS_AFTER_CURVE \<le> straightsSinceCurve st \<and>
         \<not> (dir_of (snd cand) = lastCurveDir st \<and> MAX_SAME_DIR_CURVES \<le> sameDirCount st)"
  using assms by (auto simp: filterByRules_def split: if_splits)

lemma filterByRules_subset: "set (filterByRules st cands) \<subseteq> set cands"
  by (auto simp: filterByRules_def)

lemma buildCandidates_curve:
  "cand \<in> set (buildCandidates i) \<Longrightarrow> isCurve (fst cand) \<Longrightarrow> 3 \<le> i"
  by (auto simp: buildCandidates_def ROAD_KEYS_def ROAD_TYPES_def isCurve_def split: if_splits)


lemma tryCandidates_commit:
  assumes "tryCandidates templates qid rc st cands = Some st'"
  shows "\<exists>cand \<in> set cands. \<exists>p. pkey p = fst cand \<and> piece_dir p = dir_of (snd cand) \<and>
           roadPieces st' = roadPieces st @ [p] \<and> tracking st' = track (tracking st) p"
proof -
  from tryCandidates_Some [OF assms] obtain cand template where
    c: "cand \<in> set cands" and
    s: "st' = commitPiece (placeCandidate qid (roadPieces st) template cand)
              (sampleCenterline (placeCandidate qid (roadPieces st) template cand)) cand st"
    by blast
  let ?p = "placeCandidate qid (roadPieces st) template cand"
  have "roadPieces st' = roadPieces st @ [?p]" "tracking st' = track (tracking st) ?p"
    unfolding s by (simp_all add: commitPiece_fields)
  with c show ?thesis by (intro bexI [of _ cand] exI [of _ ?p]) simp_all
qed

lemma sys1_inv_rnd [simp]: "sys1_inv i (st\<lparr>rnd := k\<rparr>) = sys1_inv i st"
  by (simp add: sys1_inv_def tracking_def)

lemma spawnLoop_rejected:
  "tryCandidates templates qid (\<Union> (set (recentCellSets st0)))
      (st0\<lparr>rnd := snd (shuffleArray rand (rnd st0) (filterByRules st0 (buildCandidates i)))\<rparr>)
      (fst (shuffleArray rand (rnd st0) (filterByRules st0 (buildCandidates i)))) = None \<Longrightarrow>
   spawnLoop templates rand qid (Suc n) i st0
     = st0\<lparr>rnd := snd (shuffleArray rand (rnd st0) (filterByRules st0 (buildCandidates i)))\<rparr>"
  by (simp add: Let_def case_prod_beta)

lemma spawnLoop_inv:
  assumes "rand_ok rand"
  shows "sys1_inv i st \<Longrightarrow> \<exists>j. sys1_inv j (spawnLoop templates rand qid n i st)"
proof (induction n arbitrary: i st)
  case 0
  then show ?case by auto
next
  case (Suc n)
  let ?cands = "filterByRules st (buildCandidates i)"
  obtain shuffled k where sh: "shuffleArray rand (rnd st) ?cands = (shuffled, k)"
    by (cases "shuffleArray rand (rnd st) ?cands")
  from shuffleArray_set [OF assms, of "rnd st" ?cands] sh
  have set_sh: "set shuffled = set ?cands" by simp
  let ?st1 = "st\<lparr>rnd := k\<rparr>"
  have inv1: "sys1_inv i ?st1" using Suc.prems by simp
  show ?case
  proof (cases "tryCandidates templates qid (\<Union> (set (recentCellSets st))) ?st1 shuffled")
    case None
    with sh inv1 show ?thesis by (auto simp: Let_def)
  next
    case (Some st2)
    from tryCandidates_commit [OF Some] obtain cand p where
      c: "cand \<in> set shuffled" and pk: "pkey p = fst cand" and pd: "piece_dir p = dir_of (snd cand)"
      and rp: "roadPieces st2 = roadPieces ?st1 @ [p]"
      and tr: "tracking st2 = track (tracking ?st1) p"
      by blast
    from c set_sh have cf: "cand \<in> set ?cands" by simp
    have allowed: "piece_is_curve p \<longrightarrow>
        roadPieces ?st1 \<noteq> [] \<and> MIN_STRAIGHTS_AFTER_CURVE \<le> snd (snd (tracking ?st1)) \<and>
        \<not> (piece_dir p = fst (tracking ?st1) \<and> MAX_SAME_DIR_CURVES \<le> fst (snd (tracking ?st1)))"
    proof
      assume "piece_is_curve p"
      then have ic: "isCurve (fst cand)" by (simp add: piece_is_curve_def pk)
      from cf filterByRules_subset have "cand \<in> set (buildCandidates i)" by blast
      from buildCandidates_curve [OF this ic] inv1 have "roadPieces ?st1 \<noteq> []"
        unfolding sys1_inv_def by auto
      with filterByRules_allowed [OF cf ic] pd
      show "roadPieces ?st1 \<noteq> [] \<and> MIN_STRAIGHTS_AFTER_CURVE \<le> snd (snd (tracking ?st1)) \<and>
        \<not> (piece_dir p = fst (tracking ?st1) \<and> MAX_SAME_DIR_CURVES \<le> fst (snd (tracking ?st1)))"
        by (simp add: tracking_def)
    qed
    from inv1 have ci: "chain_inv (roadPieces ?st1) (tracking ?st1)"
      and tf: "tracking ?st1 = foldl track (0, 0, 99) (roadPieces ?st1)"
      and len: "length (roadPieces ?st1) = i"
      unfolding sys1_inv_def by blast+
    have "chain_inv (roadPieces st2) (tracking st2)"
      using chain_inv_step [OF ci allowed] unfolding rp tr .
    moreover have "tracking st2 = foldl track (0, 0, 99) (roadPieces st2)"
      unfolding rp tr using tf by simp
    moreover have "length (roadPieces st2) = Suc i" unfolding rp using len by simp
    ultimately have "sys1_inv (Suc i) st2" unfolding sys1_inv_def by blast
    from Suc.IH [OF this] sh Some show ?thesis by (simp add: Let_def)
  qed
qed

lemma sys1_inv_init:
  "sys1_inv 0 \<lparr>roadPieces = [], occupiedCells = {}, rnd = k0, recentCellSets = [],
        lastCurveDir = 0, sameDirCount = 0, straightsSinceCurve = 99\<rparr>"
  by (simp add: sys1_inv_def tracking_def chain_inv_def tracker_ok_def curve_dirs_def
      curves_follow_straights_def)

text \<open>
  C4. In the chain that \<open>spawnProceduralRoadSystem1\<close> commits, no three curves in a
  row (the straights between them left aside) turn the same way, so no run of
  same-direction curves exceeds \<open>MAX_SAME_DIR_CURVES = 2\<close>; every curve comes right after
  a straight piece, so at least \<open>MIN_STRAIGHTS_AFTER_CURVE = 1\<close> straight separates it from
  the curve before it, and the chain does not start with a curve. The tracking variables
  at the end are the result of replaying the update over the committed pieces alone: the
  loop over the candidates of one step applies exactly one update, for the piece it
  commits, whatever candidates it rejected before; and a step that rejects every
  candidate leaves the whole state as it was, the count of random calls apart.
\<close>

theorem direction_rules:
  assumes "rand_ok rand"
  shows "no_long_run (curve_dirs (roadPieces (spawnProceduralRoadSystem1 templates rand qid k0 count))) \<and>
         curves_follow_straights (roadPieces (spawnProceduralRoadSystem1 templates rand qid k0 count)) \<and>
         tracking (spawnProceduralRoadSystem1 templates rand qid k0 count)
           = foldl track (0, 0, 99) (roadPieces (spawnProceduralRoadSystem1 templates rand qid k0 count)) \<and>
         (tryCandidates templates qid rc st cands = Some st' \<longrightarrow>
            (\<exists>p. roadPieces st' = roadPieces st @ [p] \<and> tracking st' = track (tracking st) p)) \<and>
         (tryCandidates templates qid (\<Union> (set (recentCellSets st0)))
            (st0\<lparr>rnd := snd (shuffleArray rand (rnd st0) (filterByRules st0 (buildCandidates i)))\<rparr>)
            (fst (shuffleArray rand (rnd st0) (filterByRules st0 (buildCandidates i)))) = None \<longrightarrow>
          spawnLoop templates rand qid (Suc n) i st0
            = st0\<lparr>rnd := snd (shuffleArray rand (rnd st0) (filterByRules st0 (buildCandidates i)))\<rparr>)"
proof -
  from spawnLoop_inv [OF assms sys1_inv_init, of templates qid count k0]
  obtain j where "sys1_inv j (spawnProceduralRoadSystem1 templates rand qid k0 count)"
    by (auto simp: spawnProceduralRoadSystem1_def)
  then have a: "no_long_run (curve_dirs (roadPieces (spawnProceduralRoadSystem1 templates rand qid k0 count))) \<and>
         curves_follow_straights (roadPieces (spawnProceduralRoadSystem1 templates rand qid k0 count)) \<and>
         tracking (spawnProceduralRoadSystem1 templates rand qid k0 count)
           = foldl track (0, 0, 99) (roadPieces (spawnProceduralRoadSystem1 templates rand qid k0 count))"
    by (auto simp: sys1_inv_def chain_inv_def split: prod.splits)
  have b: "tryCandidates templates qid rc st cands = Some st' \<longrightarrow>
            (\<exists>p. roadPieces st' = roadPieces st @ [p] \<and> tracking st' = track (tracking st) p)"
    using tryCandidates_commit [of templates qid rc st cands st'] by blast
  from a b spawnLoop_rejected [of templates qid st0 rand i n] show ?thesis by blast
qed

lemma rand_ok_zero: "rand_ok (\<lambda>_. 0)"
  by (simp add: rand_ok_def)

lemma system1_run_dirs:
  "curve_dirs (roadPieces (spawnProceduralRoadSystem1 system1_templates (\<lambda>_. 0) 0 0 10)) = [1, 1, - 1, 1]"
  by code_simp

lemma system1_run_keys:
  "map pkey (roadPieces (spawnProceduralRoadSystem1 system1_templates (\<lambda>_. 0) 0 0 10))
     = [''road_long'', ''road_long'', ''road_long'', ''road_curve_wide'', ''road_long'',
        ''road_curve_wide'', ''road_long'', ''road_curve_wide'', ''road_long'', ''road_curve_wide'']"
  by code_simp

lemma tryCandidates_example:
  "tryCandidates system1_templates 0 {} (sys1_init 0) [(''road_long'', False)] \<noteq> None"
  by (simp add: system1_templates_def sys1_init_def checkCollision1_def Let_def)

lemma tryCandidates_empty: "tryCandidates Map.empty qid rc st cands = None"
  by (induction cands) simp_all

theorem direction_rules_witness:
  "rand_ok (\<lambda>_. 0) \<and>
   curve_dirs (roadPieces (spawnProceduralRoadSystem1 system1_templates (\<lambda>_. 0) 0 0 10)) = [1, 1, - 1, 1] \<and>
   no_long_run (curve_dirs (roadPieces (spawnProceduralRoadSystem1 system1_templates (\<lambda>_. 0) 0 0 10))) \<and>
   curves_follow_straights (roadPieces (spawnProceduralRoadSystem1 system1_templates (\<lambda>_. 0) 0 0 10)) \<and>
   tracking (spawnProceduralRoadSystem1 system1_templates (\<lambda>_. 0) 0 0 10) = (1, 1, 0) \<and>
   (\<exists>p. roadPieces (the (tryCandidates system1_templates 0 {} (sys1_init 0) [(''road_long'', False)])) = [p] \<and>
        tracking (the (tryCandidates system1_templates 0 {} (sys1_init 0) [(''road_long'', False)]))
          = track (0, 0, 99) p) \<and>
   spawnLoop Map.empty (\<lambda>_. 0) (0::int) (Suc 4) 0 (sys1_init 0) = sys1_init 0\<lparr>rnd := 1\<rparr>"
proof -
  note r = rand_ok_zero
  let ?st' = "the (tryCandidates system1_templates 0 {} (sys1_init 0) [(''road_long'', False)])"
  have s: "tryCandidates system1_templates 0 {} (sys1_init 0) [(''road_long'', False)] = Some ?st'"
    using tryCandidates_example by simp
  have t0: "tracking (sys1_init 0 :: int sys1_state) = (0, 0, 99)"
    by (simp add: tracking_def sys1_init_def)
  have r0: "roadPieces (sys1_init 0 :: int sys1_state) = []" by (simp add: sys1_init_def)
  note A = direction_rules [OF r, of system1_templates 0 0 10 "{}" "sys1_init 0"
      "[(''road_long'', False)]" ?st' "sys1_init 0" 0 4]
  have a: "no_long_run (curve_dirs (roadPieces (spawnProceduralRoadSystem1 system1_templates (\<lambda>_. 0) 0 0 10)))"
    and b: "curves_follow_straights (roadPieces (spawnProceduralRoadSystem1 system1_templates (\<lambda>_. 0) 0 0 10))"
    and c: "tracking (spawnProceduralRoadSystem1 system1_templates (\<lambda>_. 0) 0 0 10)
           = foldl track (0, 0, 99) (roadPieces (spawnProceduralRoadSystem1 system1_templates (\<lambda>_. 0) 0 0 10))"
    using A by blast+
  have c': "tracking (spawnProceduralRoadSystem1 system1_templates (\<lambda>_. 0) 0 0 10) = (1, 1, 0)"
    by code_simp
  have d: "\<exists>p. roadPieces ?st' = [p] \<and> tracking ?st' = track (0, 0, 99) p"
    using A s unfolding t0 r0 by simp
  have sh: "shuffleArray (\<lambda>_. 0) (rnd (sys1_init 0 :: int sys1_state))
              (filterByRules (sys1_init 0 :: int sys1_state) (buildCandidates 0))
            = ([(''road_short'', False), (''road_long'', False)], 1)"
    by code_simp
  note B = direction_rules [OF r, of Map.empty "0::int" 0 10 "{}" "sys1_init 0"
      "[(''road_long'', False)]" ?st' "sys1_init 0" 0 4]
  have e: "spawnLoop Map.empty (\<lambda>_. 0) (0::int) (Suc 4) 0 (sys1_init 0) = sys1_init 0\<lparr>rnd := 1\<rparr>"
    using B tryCandidates_empty unfolding sh by simp
  from r system1_run_dirs a b c' d e show ?thesis by blast
qed

subsection \<open>The collision rule\<close>





lemma commitPiece_roadPieces:
  "roadPieces (commitPiece p samples cand st) = roadPieces st @ [p]"
  by (simp add: commitPiece_def Let_def updateTracking_def)




lemma recent_inv_rnd [simp]: "recent_inv (st\<lparr>rnd := k\<rparr>) = recent_inv st"
  by (simp add: recent_inv_def)








subsection \<open>\<open>trySpawnRoadPiece\<close> and the loop of \<open>generateRoad\<close>\<close>

lemma trySpawnRoadPiece_result:
  "trySpawnRoadPiece roadTemplates v pieceName pos quat = (r, v') \<Longrightarrow>
   (r = None \<and> v' = v) \<or>
   (\<exists>p occ. r = Some p \<and> v' = v\<lparr>occupiedCells := occ, roadPieces := roadPieces v @ [p]\<rparr> \<and>
      position (placement p) = (vx pos, vy pos + 1 / 1000, vz pos) \<and>
      quaternion (placement p) = quat)"
  by (auto simp: trySpawnRoadPiece_def Let_def split: option.splits if_splits)

lemma try_pieces_result:
  "try_pieces roadTemplates v names pos quat = (r, v') \<Longrightarrow>
   (r = None \<and> v' = v) \<or>
   (\<exists>p occ. r = Some p \<and> v' = v\<lparr>occupiedCells := occ, roadPieces := roadPieces v @ [p]\<rparr> \<and>
      position (placement p) = (vx pos, vy pos + 1 / 1000, vz pos) \<and>
      quaternion (placement p) = quat)"
proof (induction names)
  case Nil
  then show ?case by simp
next
  case (Cons name rest)
  obtain r1 v1 where t: "trySpawnRoadPiece roadTemplates v name pos quat = (r1, v1)"
    by (cases "trySpawnRoadPiece roadTemplates v name pos quat")
  from trySpawnRoadPiece_result [OF t] show ?case
  proof
    assume "r1 = None \<and> v1 = v"
    with t Cons.prems have "try_pieces roadTemplates v rest pos quat = (r, v')" by simp
    then show ?thesis by (rule Cons.IH)
  next
    assume a: "\<exists>p occ. r1 = Some p \<and> v1 = v\<lparr>occupiedCells := occ, roadPieces := roadPieces v @ [p]\<rparr> \<and>
      position (placement p) = (vx pos, vy pos + 1 / 1000, vz pos) \<and>
      quaternion (placement p) = quat"
    then obtain p where "r1 = Some p" by blast
    with t Cons.prems have "r = r1" "v' = v1" by simp_all
    with a show ?thesis by blast
  qed
qed

lemma try_pieces_Some:
  assumes "try_pieces roadTemplates st names pos quat = (Some p, st1)"
  shows "roadPieces st1 = roadPieces st @ [p]" "currentPos st1 = currentPos st"
    "currentQuat st1 = currentQuat st" "consecutiveFailures st1 = consecutiveFailures st"
    "position (placement p) = (vx pos, vy pos + 1 / 1000, vz pos)"
    "quaternion (placement p) = quat"
  using try_pieces_result [OF assms] by auto

lemma try_pieces_None:
  assumes "try_pieces roadTemplates st names pos quat = (None, st1)"
  shows "st1 = st"
  using try_pieces_result [OF assms] by auto



text \<open>One iteration of the loop, by the outcome of the attempts.\<close>

lemma generateRoad_loop_commit:
  assumes "consecutiveFailures st < maxFailures"
    and "shuffleArray rand (rnd st)
           (if consecutiveFailures st > 0 then [''road_long'', ''road_short'']
            else [''road_long'', ''road_short'', ''road_curve_wide'', ''road_curve_tight''])
         = (shuffled, k)"
    and "try_pieces roadTemplates (st\<lparr>rnd := k\<rparr>) shuffled (currentPos st) (currentQuat st)
         = (Some p, st1)"
  shows "generateRoad_loop roadTemplates rand (Suc n) st =
         generateRoad_loop roadTemplates rand n
           (case getSocketTransform p of
              None \<Rightarrow> st1\<lparr>consecutiveFailures := 0\<rparr>
            | Some tr \<Rightarrow> st1\<lparr>consecutiveFailures := 0, currentPos := fst tr, currentQuat := snd tr\<rparr>)"
  using assms by (simp add: Let_def split: option.splits prod.splits)

lemma generateRoad_loop_reject:
  assumes "consecutiveFailures st < maxFailures"
    and "shuffleArray rand (rnd st)
           (if consecutiveFailures st > 0 then [''road_long'', ''road_short'']
            else [''road_long'', ''road_short'', ''road_curve_wide'', ''road_curve_tight''])
         = (shuffled, k)"
    and "try_pieces roadTemplates (st\<lparr>rnd := k\<rparr>) shuffled (currentPos st) (currentQuat st)
         = (None, st1)"
  shows "generateRoad_loop roadTemplates rand (Suc n) st =
         generateRoad_loop roadTemplates rand n
           (st\<lparr>rnd := k, consecutiveFailures := consecutiveFailures st + 1\<rparr>)"
  using assms try_pieces_None [OF assms(3)] by (simp add: Let_def)

lemma generateRoad_loop_stop:
  "\<not> consecutiveFailures st < maxFailures \<Longrightarrow> generateRoad_loop roadTemplates rand n st = st"
  by (cases n) simp_all

text \<open>The chain that the loop builds, with the frontier it keeps.\<close>

lemma lifted_chain_snoc:
  "lifted_chain (ps @ [p]) \<longleftrightarrow>
   lifted_chain ps \<and>
   (ps \<noteq> [] \<longrightarrow>
      (case getSocketTransform (last ps) of
         None \<Rightarrow> position (placement p) = position (placement (last ps)) \<and>
                 quaternion (placement p) = quaternion (placement (last ps))
       | Some tr \<Rightarrow> position (placement p) = (vx (fst tr), vy (fst tr) + 1 / 1000, vz (fst tr)) \<and>
                    quaternion (placement p) = snd tr))"
  by (induction ps rule: lifted_chain.induct) (auto split: option.splits)

lemma lifted_chain_nth:
  "lifted_chain ps \<Longrightarrow> 0 < i \<Longrightarrow> i < length ps \<Longrightarrow>
   (getSocketTransform (ps ! (i - 1)) = None \<longrightarrow>
      position (placement (ps ! i)) = position (placement (ps ! (i - 1))) \<and>
      quaternion (placement (ps ! i)) = quaternion (placement (ps ! (i - 1)))) \<and>
   (\<forall>tr. getSocketTransform (ps ! (i - 1)) = Some tr \<longrightarrow>
      position (placement (ps ! i)) = (vx (fst tr), vy (fst tr) + 1 / 1000, vz (fst tr)) \<and>
      quaternion (placement (ps ! i)) = snd tr)"
proof (induction ps arbitrary: i rule: lifted_chain.induct)
  case (1 p p' rest)
  show ?case
  proof (cases i)
    case 0
    with "1.prems" show ?thesis by simp
  next
    case (Suc k)
    show ?thesis
    proof (cases k)
      case 0
      with Suc "1.prems" show ?thesis by (auto split: option.splits)
    next
      case (Suc m)
      with \<open>i = Suc k\<close> "1.prems" have "lifted_chain (p' # rest)" "0 < k" "k < length (p' # rest)"
        by auto
      from "1.IH" [OF this] \<open>i = Suc k\<close> Suc show ?thesis by simp
    qed
  qed
qed simp_all

lemma frontier_ok_commit:
  assumes inv: "frontier_ok st"
    and tp: "try_pieces roadTemplates (st\<lparr>rnd := k\<rparr>) shuffled (currentPos st) (currentQuat st)
             = (Some p, st1)"
  shows "frontier_ok
           (case getSocketTransform p of
              None \<Rightarrow> st1\<lparr>consecutiveFailures := 0\<rparr>
            | Some tr \<Rightarrow> st1\<lparr>consecutiveFailures := 0, currentPos := fst tr, currentQuat := snd tr\<rparr>)"
proof -
  note s = try_pieces_Some [OF tp]
  from s(1) have rp: "roadPieces st1 = roadPieces st @ [p]" by simp
  from s(2,3) have cp: "currentPos st1 = currentPos st" "currentQuat st1 = currentQuat st"
    by simp_all
  from s(5,6) have pp: "position (placement p)
        = (vx (currentPos st), vy (currentPos st) + 1 / 1000, vz (currentPos st))"
    "quaternion (placement p) = currentQuat st"
    by simp_all
  from inv have lc: "lifted_chain (roadPieces st)"
    and fr: "roadPieces st \<noteq> [] \<longrightarrow>
        (case getSocketTransform (last (roadPieces st)) of
           None \<Rightarrow> position (placement (last (roadPieces st)))
                     = (vx (currentPos st), vy (currentPos st) + 1 / 1000, vz (currentPos st)) \<and>
                   quaternion (placement (last (roadPieces st))) = currentQuat st
         | Some tr \<Rightarrow> currentPos st = fst tr \<and> currentQuat st = snd tr)"
    unfolding frontier_ok_def by blast+
  have lc': "lifted_chain (roadPieces st @ [p])"
    unfolding lifted_chain_snoc using lc fr pp by (auto split: option.splits)
  show ?thesis
    unfolding frontier_ok_def using lc' rp cp pp by (auto split: option.splits)
qed

lemma generateRoad_loop_frontier:
  "frontier_ok st \<Longrightarrow> frontier_ok (generateRoad_loop roadTemplates rand n st)"
proof (induction n arbitrary: st)
  case 0
  then show ?case by simp
next
  case (Suc n)
  show ?case
  proof (cases "consecutiveFailures st < maxFailures")
    case False
    with Suc.prems show ?thesis by (simp add: generateRoad_loop_stop)
  next
    case True
    let ?opts = "if consecutiveFailures st > 0 then [''road_long'', ''road_short'']
            else [''road_long'', ''road_short'', ''road_curve_wide'', ''road_curve_tight'']"
    obtain shuffled k where sh: "shuffleArray rand (rnd st) ?opts = (shuffled, k)"
      by (cases "shuffleArray rand (rnd st) ?opts")
    obtain piece st1 where tp:
      "try_pieces roadTemplates (st\<lparr>rnd := k\<rparr>) shuffled (currentPos st) (currentQuat st) = (piece, st1)"
      by (cases "try_pieces roadTemplates (st\<lparr>rnd := k\<rparr>) shuffled (currentPos st) (currentQuat st)")
    show ?thesis
    proof (cases piece)
      case None
      have "frontier_ok (st\<lparr>rnd := k, consecutiveFailures := consecutiveFailures st + 1\<rparr>)"
        using Suc.prems by (auto simp: frontier_ok_def split: option.splits)
      from Suc.IH [OF this] show ?thesis
        unfolding generateRoad_loop_reject [OF True sh tp [unfolded None]] .
    next
      case (Some p)
      from Suc.IH [OF frontier_ok_commit [OF Suc.prems tp [unfolded Some]]] show ?thesis
        unfolding generateRoad_loop_commit [OF True sh tp [unfolded Some]] .
    qed
  qed
qed

lemma generateRoad_lifted:
  "lifted_chain (roadPieces (generateRoad roadTemplates rand qid k0 count))"
proof -
  have "frontier_ok \<lparr>roadPieces = [], occupiedCells = {}, rnd = k0,
        currentPos = (0, 0, 0), currentQuat = qid, consecutiveFailures = 0\<rparr>"
    by (simp add: frontier_ok_def)
  from generateRoad_loop_frontier [OF this] show ?thesis
    unfolding generateRoad_def frontier_ok_def by blast
qed

subsection \<open>Pieces without an exit socket in \<open>generateRoad\<close>\<close>




















subsection \<open>The spine and its branches\<close>

lemma spawnPiece_None:
  "templates ty = None \<Longrightarrow> spawnPiece templates v ty pos quat = (None, v)"
  by (simp add: spawnPiece_def)

lemma spawnPiece_Some:
  "templates ty = Some t \<Longrightarrow>
   spawnPiece templates v ty pos quat =
     (Some \<lparr>pkey = ty, nodes = t_nodes t,
            placement = (t_placement t)\<lparr>position := pos, quaternion := quat\<rparr>\<rparr>,
      v\<lparr>roadPieces := roadPieces v @
           [\<lparr>pkey = ty, nodes = t_nodes t,
             placement = (t_placement t)\<lparr>position := pos, quaternion := quat\<rparr>\<rparr>]\<rparr>)"
  by (simp add: spawnPiece_def Let_def)

lemma getSocketTransform3_None:
  "getSocketTransform3 p name = None \<longleftrightarrow> findSocket (nodes p) name = None"
  by (simp add: getSocketTransform3_def split: option.splits)

lemma useRoadX_at_range: "useRoadX_at i \<Longrightarrow> 0 < i \<and> i < SPINE_LENGTH - 1"
  by (auto simp: useRoadX_at_def chooseRoadX_def split: if_splits)


lemma spine_pieces_ok_snoc:
  "spine_pieces_ok ps \<Longrightarrow> pkey p = (if useRoadX_at (length ps) then ''RoadX'' else ''Road1'') \<Longrightarrow>
   spine_pieces_ok (ps @ [p])"
  by (auto simp: spine_pieces_ok_def nth_append less_Suc_eq)

lemma spineStep_inv:
  assumes inv: "spine_inv templates occ i st" and i: "i < SPINE_LENGTH"
  shows "(snd (spineStep templates i st) \<longrightarrow> spine_inv templates occ (Suc i) (fst (spineStep templates i st))) \<and>
         (\<not> snd (spineStep templates i st) \<longrightarrow> spine_fin templates occ (fst (spineStep templates i st)))"
proof -
  let ?u = "useRoadX_at i"
  let ?ty = "if ?u then ''RoadX'' else ''Road1''"
  from inv have seed: "seedState st = seed_at i" and len: "length (roadPieces st) = i"
    and ok: "spine_pieces_ok (roadPieces st)"
    and br: "branches st = concat (map junctionBranches (filter (\<lambda>p. pkey p = ''RoadX'') (roadPieces st)))"
    and r1: "0 < i \<longrightarrow> road1_ok templates" and oc: "occupiedCells st = occ"
    unfolding spine_inv_def by blast+
  have u: "fst (chooseRoadX i (seedState st)) = ?u" by (simp add: useRoadX_at_def seed)
  have s': "snd (chooseRoadX i (seedState st)) = seed_at (Suc i)" by (simp add: seed)
  have upos: "?u \<longrightarrow> 0 < i" using useRoadX_at_range by blast
  have brne: "branches st \<noteq> [] \<longrightarrow> road1_ok templates"
  proof
    assume "branches st \<noteq> []"
    with br have "roadPieces st \<noteq> []" by auto
    with len r1 show "road1_ok templates" by auto
  qed
  show ?thesis
  proof (cases "templates ?ty")
    case None
    then have "spineStep templates i st = (st\<lparr>seedState := seed_at (Suc i)\<rparr>, False)"
      by (simp add: spineStep_def Let_def u s' spawnPiece_None)
    moreover have "spine_fin templates occ (st\<lparr>seedState := seed_at (Suc i)\<rparr>)"
      using len ok br brne oc i by (simp add: spine_fin_def)
    ultimately show ?thesis by simp
  next
    case (Some t)
    let ?p = "\<lparr>pkey = ?ty, nodes = t_nodes t,
               placement = (t_placement t)\<lparr>position := spinePos st, quaternion := spineQuat st\<rparr>\<rparr>"
    let ?st2 = "st\<lparr>seedState := seed_at (Suc i), roadPieces := roadPieces st @ [?p]\<rparr>"
    let ?st3 = "if ?u then ?st2\<lparr>branches := branches ?st2 @ junctionBranches ?p\<rparr> else ?st2"
    have sp: "spawnPiece templates (st\<lparr>seedState := seed_at (Suc i)\<rparr>) ?ty (spinePos st) (spineQuat st)
              = (Some ?p, ?st2)"
      using spawnPiece_Some [where templates = templates and ty = ?ty and t = t
          and v = "st\<lparr>seedState := seed_at (Suc i)\<rparr>" and pos = "spinePos st"
          and quat = "spineQuat st", OF Some]
      by simp
    have pk: "pkey ?p = ?ty" by simp
    have pk': "(pkey ?p = ''RoadX'') = ?u" by simp
    have ok3: "spine_pieces_ok (roadPieces ?st3)"
      using spine_pieces_ok_snoc [OF ok, of ?p] len by (cases ?u) simp_all
    have br3: "branches ?st3
               = concat (map junctionBranches (filter (\<lambda>p. pkey p = ''RoadX'') (roadPieces ?st3)))"
      using br by (cases ?u) simp_all
    have len3: "length (roadPieces ?st3) = Suc i" using len by simp
    have oc3: "occupiedCells ?st3 = occ" using oc by simp
    have seed3: "seedState ?st3 = seed_at (Suc i)" by simp
    show ?thesis
    proof (cases "getSocketTransform3 ?p ''socket_out''")
      case None
      have step: "spineStep templates i st = (?st3, False)"
        unfolding spineStep_def Let_def u s' sp using None by simp
      have "branches ?st3 \<noteq> [] \<longrightarrow> road1_ok templates"
      proof (cases ?u)
        case True
        with upos r1 show ?thesis by blast
      next
        case False
        with brne show ?thesis by simp
      qed
      with len3 ok3 br3 oc3 i have "spine_fin templates occ ?st3"
        unfolding spine_fin_def by (simp only: Suc_leI) 
      with step show ?thesis by simp
    next
      case (Some tr)
      obtain pos quat where tr: "tr = (pos, quat)" by (cases tr)
      let ?st4 = "?st3\<lparr>spinePos := pos, spineQuat := quat\<rparr>"
      have step: "spineStep templates i st = (?st4, True)"
        unfolding spineStep_def Let_def u s' sp using Some tr by simp
      have r1': "road1_ok templates"
      proof (cases "0 < i")
        case True
        with r1 show ?thesis by simp
      next
        case False
        with upos have nu: "\<not> ?u" by blast
        with \<open>templates ?ty = Some t\<close> have t1: "templates ''Road1'' = Some t" by simp
        from Some have "findSocket (nodes ?p) ''socket_out'' \<noteq> None"
          using getSocketTransform3_None [of ?p "''socket_out''"] by simp
        then have "findSocket (t_nodes t) ''socket_out'' \<noteq> None" by simp
        with t1 show ?thesis unfolding road1_ok_def by blast
      qed
      have "spine_inv templates occ (Suc i) ?st4"
        unfolding spine_inv_def using seed3 len3 ok3 br3 oc3 r1' by simp
      with step show ?thesis by simp
    qed
  qed
qed


lemma spine_inv_fin:
  "spine_inv templates occ i st \<Longrightarrow> i \<le> SPINE_LENGTH \<Longrightarrow> spine_fin templates occ st"
  unfolding spine_inv_def spine_fin_def by (cases "roadPieces st = []") auto

lemma spineLoop_fin:
  "spine_inv templates occ i st \<Longrightarrow> i + n = SPINE_LENGTH \<Longrightarrow>
   spine_fin templates occ (spineLoop templates n i st)"
proof (induction n arbitrary: i st)
  case 0
  then show ?case by (simp add: spine_inv_fin)
next
  case (Suc n)
  from Suc.prems(2) have i: "i < SPINE_LENGTH" by simp
  note step = spineStep_inv [OF Suc.prems(1) i]
  show ?case
  proof (cases "snd (spineStep templates i st)")
    case True
    with step have "spine_inv templates occ (Suc i) (fst (spineStep templates i st))" by blast
    from Suc.IH [OF this] Suc.prems(2) True show ?thesis by simp
  next
    case False
    with step show ?thesis by simp
  qed
qed

lemma spineOf_fin: "spine_fin templates (occupiedCells v) (spineOf templates qid v)"
  unfolding spineOf_def
  by (rule spineLoop_fin) (simp_all add: spine_inv_def spine_pieces_ok_def)



lemma branchStep_cases:
  "(templates ''Road1'' = None \<and> branchStep templates v pos quat = (v, None)) \<or>
   (\<exists>t. templates ''Road1'' = Some t \<and>
      branchStep templates v pos quat =
        (v\<lparr>roadPieces := roadPieces v @
              [\<lparr>pkey = ''Road1'', nodes = t_nodes t,
                placement = (t_placement t)\<lparr>position := pos, quaternion := quat\<rparr>\<rparr>]\<rparr>,
         getSocketTransform3 \<lparr>pkey = ''Road1'', nodes = t_nodes t,
                placement = (t_placement t)\<lparr>position := pos, quaternion := quat\<rparr>\<rparr> ''socket_out''))"
  by (cases "templates ''Road1''") (simp_all add: branchStep_def spawnPiece_def Let_def)

lemma branchLoop_chain:
  fixes templates :: "string \<rightharpoonup> 'q template"
  shows "\<exists>c. branchLoop templates n v pos quat = v\<lparr>roadPieces := roadPieces v @ c\<rparr> \<and>
       length c \<le> n \<and> (\<forall>p \<in> set c. pkey p = ''Road1'' \<and> (\<exists>t. templates ''Road1'' = Some t \<and> nodes p = t_nodes t)) \<and> chain_from pos quat c \<and>
       (length c < n \<longrightarrow>
          c = [] \<and> templates ''Road1'' = None \<or>
          c \<noteq> [] \<and> getSocketTransform3 (last c) ''socket_out'' = None)"
proof (induction n arbitrary: v pos quat)
  case 0
  show ?case by (rule exI [of _ "[]"]) simp
next
  case (Suc n)
  from branchStep_cases [of templates v pos quat] show ?case
  proof (elim disjE conjE exE)
    assume "templates ''Road1'' = None" "branchStep templates v pos quat = (v, None)"
    then show ?thesis by (intro exI [of _ "[]"]) simp
  next
    fix t :: "'q template"
    let ?p = "\<lparr>pkey = ''Road1'', nodes = t_nodes t,
                placement = (t_placement t)\<lparr>position := pos, quaternion := quat\<rparr>\<rparr>"
    let ?v' = "v\<lparr>roadPieces := roadPieces v @ [?p]\<rparr>"
    assume t: "templates ''Road1'' = Some t"
      and bs: "branchStep templates v pos quat = (?v', getSocketTransform3 ?p ''socket_out'')"
    show ?thesis
    proof (cases "getSocketTransform3 ?p ''socket_out''")
      case None
      with bs t show ?thesis by (intro exI [of _ "[?p]"]) simp
    next
      case (Some nx)
      from Suc.IH [of ?v' "fst nx" "snd nx"] obtain c where
        c: "branchLoop templates n ?v' (fst nx) (snd nx) = ?v'\<lparr>roadPieces := roadPieces ?v' @ c\<rparr>"
        and l: "length c \<le> n"
        and k: "\<forall>p \<in> set c. pkey p = ''Road1'' \<and> (\<exists>t. templates ''Road1'' = Some t \<and> nodes p = t_nodes t)"
        and ch: "chain_from (fst nx) (snd nx) c"
        and f: "length c < n \<longrightarrow>
          c = [] \<and> templates ''Road1'' = None \<or>
          c \<noteq> [] \<and> getSocketTransform3 (last c) ''socket_out'' = None"
        by blast
      have "branchLoop templates (Suc n) v pos quat = v\<lparr>roadPieces := roadPieces v @ (?p # c)\<rparr>"
        using bs Some c by simp
      moreover have "chain_from pos quat (?p # c)" using ch Some by simp
      moreover have "length (?p # c) < Suc n \<longrightarrow>
          ?p # c = [] \<and> templates ''Road1'' = None \<or>
          ?p # c \<noteq> [] \<and> getSocketTransform3 (last (?p # c)) ''socket_out'' = None"
        using f t by auto
      ultimately show ?thesis using l k t by (intro exI [of _ "?p # c"]) simp
    qed
  qed
qed


lemma branchLoop_full:
  fixes templates :: "string \<rightharpoonup> 'q template"
  assumes "road1_ok templates"
  shows "\<exists>c. branchLoop templates n v pos quat = v\<lparr>roadPieces := roadPieces v @ c\<rparr> \<and>
       length c = n \<and> (\<forall>p \<in> set c. pkey p = ''Road1'') \<and> chain_from pos quat c"
proof -
  from branchLoop_chain [of templates n v pos quat] obtain c where
    c: "branchLoop templates n v pos quat = v\<lparr>roadPieces := roadPieces v @ c\<rparr>"
    and l: "length c \<le> n"
    and k: "\<forall>p \<in> set c. pkey p = ''Road1'' \<and> (\<exists>t. templates ''Road1'' = Some t \<and> nodes p = t_nodes t)"
    and ch: "chain_from pos quat c"
    and f: "length c < n \<longrightarrow>
          c = [] \<and> templates ''Road1'' = None \<or>
          c \<noteq> [] \<and> getSocketTransform3 (last c) ''socket_out'' = None"
    by blast
  have "\<not> length c < n"
  proof
    assume "length c < n"
    with f assms have ne: "c \<noteq> []" and g: "getSocketTransform3 (last c) ''socket_out'' = None"
      by (auto simp: road1_ok_def)
    from ne k have "\<exists>t. templates ''Road1'' = Some t \<and> nodes (last c) = t_nodes t"
      by simp
    with assms have "findSocket (nodes (last c)) ''socket_out'' \<noteq> None"
      by (auto simp: road1_ok_def)
    with g show False by (simp add: getSocketTransform3_None)
  qed
  with l have "length c = n" by simp
  with c k ch show ?thesis by blast
qed

lemma walkBranches_chains:
  fixes templates :: "string \<rightharpoonup> 'q template"
  assumes "bs \<noteq> [] \<longrightarrow> road1_ok templates"
  shows "\<exists>chains. walkBranches templates v bs = v\<lparr>roadPieces := roadPieces v @ concat chains\<rparr> \<and>
           list_all2 (\<lambda>b c. length c = b_length b \<and> (\<forall>p \<in> set c. pkey p = ''Road1'') \<and>
                             chain_from (b_pos b) (b_quat b) c) bs chains"
  using assms
proof (induction bs arbitrary: v)
  case Nil
  show ?case by (rule exI [of _ "[]"]) simp
next
  case (Cons b bs)
  then have ok: "road1_ok templates" by simp
  from branchLoop_full [OF ok, of "b_length b" v "b_pos b" "b_quat b"] obtain c where
    c: "branchLoop templates (b_length b) v (b_pos b) (b_quat b) = v\<lparr>roadPieces := roadPieces v @ c\<rparr>"
    and p: "length c = b_length b \<and> (\<forall>p \<in> set c. pkey p = ''Road1'') \<and> chain_from (b_pos b) (b_quat b) c"
    by blast
  from Cons.IH [of "v\<lparr>roadPieces := roadPieces v @ c\<rparr>"] ok obtain chains where
    w: "walkBranches templates (v\<lparr>roadPieces := roadPieces v @ c\<rparr>) bs
          = v\<lparr>roadPieces := roadPieces v @ c @ concat chains\<rparr>"
    and a: "list_all2 (\<lambda>b c. length c = b_length b \<and> (\<forall>p \<in> set c. pkey p = ''Road1'') \<and>
                             chain_from (b_pos b) (b_quat b) c) bs chains"
    by auto
  show ?case by (rule exI [of _ "c # chains"]) (use c p w a in simp)
qed














subsection \<open>Chain connectivity\<close>

lemma vadd_vsub [simp]: "vadd (vsub a b) b = a"
  by (cases a, cases b) (simp add: vadd_def vsub_def vx_def vy_def vz_def)

lemma connected_snoc:
  "segments_connected (segs @ [s]) \<longleftrightarrow>
   segments_connected segs \<and> (segs \<noteq> [] \<longrightarrow> entry_point s = exit_point (last segs))"
  by (induction segs rule: segments_connected.induct) auto

lemma connected_tl: "segments_connected segs \<Longrightarrow> segments_connected (tl segs)"
  by (induction segs rule: segments_connected.induct) auto

lemma connected_nth:
  "segments_connected segs \<Longrightarrow> 0 < i \<Longrightarrow> i < length segs \<Longrightarrow> entry_point (segs ! i) = exit_point (segs ! (i - 1))"
proof (induction segs arbitrary: i rule: segments_connected.induct)
  case (1 s s' rest)
  show ?case
  proof (cases "i = 1")
    case True
    with "1.prems" show ?thesis by simp
  next
    case False
    with "1.prems" have "0 < i - 1" "i - 1 < length (s' # rest)" by auto
    from "1.IH" [OF _ this] "1.prems"(1) have "entry_point ((s' # rest) ! (i - 1)) = exit_point ((s' # rest) ! (i - 1 - 1))"
      by simp
    with "1.prems"(2) False show ?thesis by (cases i) (auto simp: nth_Cons split: nat.splits)
  qed
qed simp_all

lemma addSegmentAhead_inv:
  assumes "rm_inv st" "addSegmentAhead segmentTemplates rand st = Inr st'"
  shows "rm_inv st'"
proof -
  from assms(2) obtain segmentType template where
    t: "map_of segmentTemplates segmentType = Some template"
    and s: "selectRandomSegmentType segmentTemplates (rand (rm_rnd st)) = Inr segmentType"
    by (auto simp: addSegmentAhead_def split: sum.splits option.splits)
  let ?angle = "atan2 (vx (currentEndDirection st)) (- vz (currentEndDirection st))"
  let ?pos = "vsub (currentEndPosition st) (applyAxisAngleY ?angle (tpl_inPoint template))"
  let ?seg = "\<lparr>mesh_position = ?pos, mesh_rotation_y = ?angle, seg_type = segmentType,
                inPoint = tpl_inPoint template, outPoint = tpl_outPoint template,
                outRotation = tpl_outRotation template, worldZ = vz ?pos\<rparr>"
  from assms(2) s t have a: "activeSegments st' = activeSegments st @ [?seg]"
    and e: "currentEndPosition st' = exit_point ?seg"
    by (auto simp: addSegmentAhead_def Let_def exit_point_def)
  have en: "entry_point ?seg = currentEndPosition st" by (simp add: entry_point_def)
  from assms(1) have c: "segments_connected (activeSegments st)"
    and l: "activeSegments st \<noteq> [] \<longrightarrow> currentEndPosition st = exit_point (last (activeSegments st))"
    unfolding rm_inv_def by blast+
  from l en have "activeSegments st \<noteq> [] \<longrightarrow> entry_point ?seg = exit_point (last (activeSegments st))"
    by metis
  with c show ?thesis
    unfolding rm_inv_def a e by (simp add: connected_snoc)
qed


lemma addSegments_inv:
  "rm_inv st \<Longrightarrow> addSegments segmentTemplates rand n st = Inr st' \<Longrightarrow> rm_inv st'"
proof (induction n arbitrary: st)
  case 0
  then show ?case by simp
next
  case (Suc n)
  then show ?case
    by (auto split: sum.splits dest: addSegmentAhead_inv)
qed

lemma recycleOldestSegment_inv: "rm_inv st \<Longrightarrow> rm_inv (recycleOldestSegment st)"
  unfolding rm_inv_def recycleOldestSegment_def
  by (cases "activeSegments st") (auto simp: connected_tl dest: connected_tl)

lemma recycleLoop_inv: "rm_inv st \<Longrightarrow> rm_inv (recycleLoop sb playerZ segs st)"
  by (induction segs arbitrary: sb st) (simp_all add: recycleOldestSegment_inv)

lemma update_inv:
  "rm_inv st \<Longrightarrow> update segmentTemplates rand playerPosition st = Inr st' \<Longrightarrow> rm_inv st'"
  unfolding update_def Let_def
  by (erule addSegments_inv [OF recycleLoop_inv])

lemma rm_exec_inv:
  "rm_inv st \<Longrightarrow> rm_exec segmentTemplates rand st op = Inr st' \<Longrightarrow> rm_inv st'"
  by (cases op) (auto simp: recycleOldestSegment_inv dest: addSegmentAhead_inv update_inv)

lemma rm_run_inv:
  "rm_inv st \<Longrightarrow> rm_run segmentTemplates rand st ops = Inr st' \<Longrightarrow> rm_inv st'"
proof (induction ops arbitrary: st)
  case Nil
  then show ?case by simp
next
  case (Cons op ops)
  then show ?case by (auto split: sum.splits dest: rm_exec_inv)
qed

lemma rm_inv_initial: "rm_inv (rm_initial k0)"
  by (simp add: rm_inv_def rm_initial_def)

lemma addSegmentAhead_places:
  assumes "addSegmentAhead segmentTemplates rand st = Inr st'"
  shows "\<exists>s. activeSegments st' = activeSegments st @ [s] \<and>
             mesh_position s = vsub (currentEndPosition st) (applyAxisAngleY (mesh_rotation_y s) (inPoint s)) \<and>
             entry_point s = currentEndPosition st \<and>
             currentEndPosition st' = exit_point s"
  using assms
  by (auto simp: addSegmentAhead_def Let_def entry_point_def exit_point_def
      split: sum.splits option.splits)

lemma chained1_snoc:
  "chained1 (ps @ [p]) \<longleftrightarrow>
   chained1 ps \<and>
   (ps \<noteq> [] \<longrightarrow>
      (case getSocketTransform (last ps) of
         None \<Rightarrow> True
       | Some tr \<Rightarrow> position (placement p) = fst tr \<and> quaternion (placement p) = snd tr))"
  by (induction ps rule: chained1.induct) auto

lemma chained1_nth:
  "chained1 ps \<Longrightarrow> 0 < i \<Longrightarrow> i < length ps \<Longrightarrow> getSocketTransform (ps ! (i - 1)) = Some tr \<Longrightarrow>
   position (placement (ps ! i)) = fst tr \<and> quaternion (placement (ps ! i)) = snd tr"
proof (induction ps arbitrary: i rule: chained1.induct)
  case (1 p p' rest)
  show ?case
  proof (cases i)
    case 0
    with "1.prems" show ?thesis by simp
  next
    case (Suc k)
    show ?thesis
    proof (cases k)
      case 0
      with Suc "1.prems" show ?thesis by simp
    next
      case (Suc m)
      with \<open>i = Suc k\<close> "1.prems" have "0 < k" "k < length (p' # rest)"
        "getSocketTransform ((p' # rest) ! (k - 1)) = Some tr" "chained1 (p' # rest)"
        by auto
      from "1.IH" [OF this(4,1,2,3)] \<open>i = Suc k\<close> show ?thesis by simp
    qed
  qed
qed simp_all

lemma placeCandidate_chained:
  assumes "ps \<noteq> []"
  shows "case getSocketTransform (last ps) of
           None \<Rightarrow> True
         | Some tr \<Rightarrow> position (placement (placeCandidate qid ps template cand)) = fst tr \<and>
                      quaternion (placement (placeCandidate qid ps template cand)) = snd tr"
  using assms
  by (auto simp: placeCandidate_def getSocketTransform_def Let_def split: option.splits prod.splits)

lemma spawnLoop_chained:
  "chained1 (roadPieces st) \<Longrightarrow> chained1 (roadPieces (spawnLoop templates rand qid n i st))"
proof (induction n arbitrary: i st)
  case 0
  then show ?case by simp
next
  case (Suc n)
  obtain shuffled k where sh:
    "shuffleArray rand (rnd st) (filterByRules st (buildCandidates i)) = (shuffled, k)"
    by (cases "shuffleArray rand (rnd st) (filterByRules st (buildCandidates i))")
  show ?case
  proof (cases "tryCandidates templates qid (\<Union> (set (recentCellSets st))) (st\<lparr>rnd := k\<rparr>) shuffled")
    case None
    with sh Suc.prems show ?thesis by (simp add: Let_def)
  next
    case (Some st2)
    from tryCandidates_Some [OF Some] obtain cand template where
      s2: "st2 = commitPiece (placeCandidate qid (roadPieces (st\<lparr>rnd := k\<rparr>)) template cand)
              (sampleCenterline (placeCandidate qid (roadPieces (st\<lparr>rnd := k\<rparr>)) template cand)) cand
              (st\<lparr>rnd := k\<rparr>)"
      by blast
    have "chained1 (roadPieces st2)"
      unfolding s2 commitPiece_roadPieces
      using Suc.prems placeCandidate_chained [of "roadPieces st" qid template cand]
      by (simp add: chained1_snoc)
    from Suc.IH [OF this] sh Some show ?thesis by (simp add: Let_def)
  qed
qed

lemma chain_from_snoc:
  "chain_from pos quat (ps @ [p]) \<longleftrightarrow>
     (if ps = [] then position (placement p) = pos \<and> quaternion (placement p) = quat
      else chain_from pos quat ps \<and>
           getSocketTransform3 (last ps) ''socket_out''
             = Some (position (placement p), quaternion (placement p)))"
proof (induction ps arbitrary: pos quat)
  case Nil
  show ?case by simp
next
  case (Cons a ps)
  show ?case
  proof (cases "getSocketTransform3 a ''socket_out''")
    case None
    have l: "chain_from pos quat ((a # ps) @ [p]) = False"
      by (simp add: None)
    have r: "(chain_from pos quat (a # ps) \<and>
           getSocketTransform3 (last (a # ps)) ''socket_out''
             = Some (position (placement p), quaternion (placement p))) = False"
    proof (cases "ps = []")
      case True
      then show ?thesis by (simp add: None)
    next
      case False
      then show ?thesis by (simp add: None)
    qed
    show ?thesis unfolding l using r by simp
  next
    case (Some nx)
    obtain a1 a2 where nx: "nx = (a1, a2)" by (cases nx)
    have l: "chain_from pos quat ((a # ps) @ [p]) =
             (position (placement a) = pos \<and> quaternion (placement a) = quat \<and>
              chain_from a1 a2 (ps @ [p]))"
      by (simp add: Some nx)
    show ?thesis
    proof (cases "ps = []")
      case True
      then show ?thesis unfolding l by (auto simp: Some nx)
    next
      case False
      have r: "chain_from pos quat (a # ps) =
               (position (placement a) = pos \<and> quaternion (placement a) = quat \<and>
                chain_from a1 a2 ps)"
        using False by (simp add: Some nx)
      show ?thesis unfolding l Cons.IH r using False by auto
    qed
  qed
qed

lemma spineStep_chain:
  assumes c: "chain_from pos0 quat0 (roadPieces st)"
    and f: "if roadPieces st = [] then spinePos st = pos0 \<and> spineQuat st = quat0
            else getSocketTransform3 (last (roadPieces st)) ''socket_out''
                   = Some (spinePos st, spineQuat st)"
  shows "chain_from pos0 quat0 (roadPieces (fst (spineStep templates i st)))"
    and "snd (spineStep templates i st) \<Longrightarrow>
         roadPieces (fst (spineStep templates i st)) \<noteq> [] \<and>
         getSocketTransform3 (last (roadPieces (fst (spineStep templates i st)))) ''socket_out''
           = Some (spinePos (fst (spineStep templates i st)), spineQuat (fst (spineStep templates i st)))"
proof -
  let ?ty = "if fst (chooseRoadX i (seedState st)) then ''RoadX'' else ''Road1''"
  show "chain_from pos0 quat0 (roadPieces (fst (spineStep templates i st)))"
  proof (cases "templates ?ty")
    case None
    then show ?thesis using c by (simp add: spineStep_def spawnPiece_def Let_def)
  next
    case (Some t)
    then show ?thesis using c f
      by (auto simp: spineStep_def spawnPiece_def Let_def chain_from_snoc
          split: option.splits prod.splits if_splits)
  qed
  show "roadPieces (fst (spineStep templates i st)) \<noteq> [] \<and>
         getSocketTransform3 (last (roadPieces (fst (spineStep templates i st)))) ''socket_out''
           = Some (spinePos (fst (spineStep templates i st)), spineQuat (fst (spineStep templates i st)))"
    if "snd (spineStep templates i st)"
    using that
    by (auto simp: spineStep_def spawnPiece_def Let_def split: option.splits prod.splits if_splits)
qed

lemma spineLoop_chain:
  "chain_from pos0 quat0 (roadPieces st) \<Longrightarrow>
   (if roadPieces st = [] then spinePos st = pos0 \<and> spineQuat st = quat0
    else getSocketTransform3 (last (roadPieces st)) ''socket_out'' = Some (spinePos st, spineQuat st)) \<Longrightarrow>
   chain_from pos0 quat0 (roadPieces (spineLoop templates n i st))"
proof (induction n arbitrary: i st)
  case 0
  then show ?case by simp
next
  case (Suc n)
  note s = spineStep_chain [OF Suc.prems, of templates i]
  show ?case
  proof (cases "snd (spineStep templates i st)")
    case False
    with s(1) show ?thesis by simp
  next
    case True
    from s(2) [OF True]
    have "if roadPieces (fst (spineStep templates i st)) = []
          then spinePos (fst (spineStep templates i st)) = pos0 \<and>
               spineQuat (fst (spineStep templates i st)) = quat0
          else getSocketTransform3 (last (roadPieces (fst (spineStep templates i st)))) ''socket_out''
                 = Some (spinePos (fst (spineStep templates i st)),
                         spineQuat (fst (spineStep templates i st)))"
      by simp
    from Suc.IH [OF s(1) this] True show ?thesis by simp
  qed
qed

lemma spineOf_chain: "chain_from (0, 0, 0) qid (roadPieces (spineOf templates qid v))"
  unfolding spineOf_def by (rule spineLoop_chain) simp_all

lemma chain_from_nth:
  "chain_from pos quat ps \<Longrightarrow> 0 < i \<Longrightarrow> i < length ps \<Longrightarrow>
   getSocketTransform3 (ps ! (i - 1)) ''socket_out''
     = Some (position (placement (ps ! i)), quaternion (placement (ps ! i)))"
proof (induction ps arbitrary: pos quat i)
  case Nil
  then show ?case by simp
next
  case (Cons a ps)
  from Cons.prems have ne: "ps \<noteq> []" by auto
  with Cons.prems(1) obtain nx where
    g: "getSocketTransform3 a ''socket_out'' = Some nx" and c: "chain_from (fst nx) (snd nx) ps"
    by (auto split: option.splits)
  show ?case
  proof (cases "i = 1")
    case True
    from ne c have "position (placement (ps ! 0)) = fst nx \<and> quaternion (placement (ps ! 0)) = snd nx"
      by (cases ps) auto
    with g True show ?thesis by simp
  next
    case False
    with Cons.prems have "0 < i - 1" "i - 1 < length ps" by auto
    from Cons.IH [OF c this] Cons.prems(2) False show ?thesis
      by (cases i) (auto simp: nth_Cons split: nat.splits)
  qed
qed

text \<open>
  C3, amended. In \<open>RoadManager\<close>, after any sequence of \<open>addSegmentAhead\<close>,
  \<open>recycleOldestSegment\<close> and \<open>update\<close> calls from the initial state, every active
  segment but the first has its in-point exactly where the segment before it has its
  out-point (in exact arithmetic, hence within any epsilon); this is so because
  \<open>addSegmentAhead\<close> puts the mesh at the frontier position minus the in-point offset
  rotated by the frontier rotation, and then moves the frontier to the out-point of the new
  segment. In \<open>spawnProceduralRoadSystem1\<close>, where the origin of a piece is its entry
  socket, every committed piece that follows a piece with an exit socket has exactly the
  world position and quaternion of that socket. In \<open>spawnSpineAndBranchSystem3\<close> every
  piece of the spine but the first has exactly the world position and quaternion of the
  \<open>socket_out\<close> of the piece before it, and the pieces placed after the spine are one
  such chain per branch request, starting at the requested transform. In \<open>generateRoad\<close>
  the chain is not closed in this way: \<open>trySpawnRoadPiece\<close> raises a committed piece by
  0.001 in \<open>y\<close>, so that every committed piece that follows a piece with an exit socket has
  the quaternion of that socket and its \<open>x\<close> and \<open>z\<close>, and lies 0.001 above it.
\<close>

theorem chain_connectivity_amended:
  fixes templates :: "string \<rightharpoonup> 'q template"
  shows
  "(rm_run segmentTemplates rand (rm_initial k0) ops = Inr st \<longrightarrow>
      0 < i \<longrightarrow> i < length (activeSegments st) \<longrightarrow>
      entry_point (activeSegments st ! i) = exit_point (activeSegments st ! (i - 1))) \<and>
   (addSegmentAhead segmentTemplates rand sta = Inr stb \<longrightarrow>
      (\<exists>s. activeSegments stb = activeSegments sta @ [s] \<and>
           mesh_position s
             = vsub (currentEndPosition sta) (applyAxisAngleY (mesh_rotation_y s) (inPoint s)) \<and>
           entry_point s = currentEndPosition sta \<and>
           currentEndPosition stb = exit_point s)) \<and>
   (0 < j \<longrightarrow> j < length (roadPieces (spawnProceduralRoadSystem1 templates randS qid kS count)) \<longrightarrow>
      getSocketTransform (roadPieces (spawnProceduralRoadSystem1 templates randS qid kS count) ! (j - 1))
        = Some tr \<longrightarrow>
      position (placement (roadPieces (spawnProceduralRoadSystem1 templates randS qid kS count) ! j))
        = fst tr \<and>
      quaternion (placement (roadPieces (spawnProceduralRoadSystem1 templates randS qid kS count) ! j))
        = snd tr) \<and>
   (0 < l \<longrightarrow> l < length (roadPieces (spineOf spineTemplates qid v)) \<longrightarrow>
      getSocketTransform3 (roadPieces (spineOf spineTemplates qid v) ! (l - 1)) ''socket_out''
        = Some (position (placement (roadPieces (spineOf spineTemplates qid v) ! l)),
                quaternion (placement (roadPieces (spineOf spineTemplates qid v) ! l)))) \<and>
   (\<exists>chains.
      roadPieces (spawnSpineAndBranchSystem3 spineTemplates qid v)
        = roadPieces (spineOf spineTemplates qid v) @ concat chains \<and>
      list_all2 (\<lambda>b c. chain_from (b_pos b) (b_quat b) c)
        (branches (spineOf spineTemplates qid v)) chains) \<and>
   (0 < m \<longrightarrow> m < length (roadPieces (generateRoad roadTemplates randG qid kG countG)) \<longrightarrow>
      getSocketTransform (roadPieces (generateRoad roadTemplates randG qid kG countG) ! (m - 1))
        = Some trG \<longrightarrow>
      position (placement (roadPieces (generateRoad roadTemplates randG qid kG countG) ! m))
        = (vx (fst trG), vy (fst trG) + 1 / 1000, vz (fst trG)) \<and>
      quaternion (placement (roadPieces (generateRoad roadTemplates randG qid kG countG) ! m))
        = snd trG)"
proof -
  have A: "entry_point (activeSegments st ! i) = exit_point (activeSegments st ! (i - 1))"
    if r: "rm_run segmentTemplates rand (rm_initial k0) ops = Inr st"
      and i: "0 < i" "i < length (activeSegments st)"
  proof -
    from rm_run_inv [OF rm_inv_initial r] have "segments_connected (activeSegments st)"
      by (simp add: rm_inv_def)
    from connected_nth [OF this i] show ?thesis .
  qed
  note B = addSegmentAhead_places [of segmentTemplates rand sta stb]
  have "chained1 (roadPieces (spawnProceduralRoadSystem1 templates randS qid kS count))"
    unfolding spawnProceduralRoadSystem1_def by (rule spawnLoop_chained) simp
  note C = chained1_nth [OF this, of j tr]
  note D = chain_from_nth [OF spineOf_chain [of qid spineTemplates v], of l]
  have E: "\<exists>chains.
      roadPieces (spawnSpineAndBranchSystem3 spineTemplates qid v)
        = roadPieces (spineOf spineTemplates qid v) @ concat chains \<and>
      list_all2 (\<lambda>b c. chain_from (b_pos b) (b_quat b) c)
        (branches (spineOf spineTemplates qid v)) chains"
  proof -
    let ?st = "spineOf spineTemplates qid v"
    from spineOf_fin [of spineTemplates v qid]
    have ok: "branches ?st \<noteq> [] \<longrightarrow> road1_ok spineTemplates"
      unfolding spine_fin_def by blast
    from walkBranches_chains [OF ok, of ?st] obtain chains where
      w: "walkBranches spineTemplates ?st (branches ?st)
            = ?st\<lparr>roadPieces := roadPieces ?st @ concat chains\<rparr>"
      and a: "list_all2 (\<lambda>b c. length c = b_length b \<and> (\<forall>p \<in> set c. pkey p = ''Road1'') \<and>
                             chain_from (b_pos b) (b_quat b) c) (branches ?st) chains"
      by blast
    from a have "list_all2 (\<lambda>b c. chain_from (b_pos b) (b_quat b) c) (branches ?st) chains"
      by (rule list_all2_mono) simp
    with w show ?thesis
      by (intro exI [of _ chains]) (simp add: spawnSpineAndBranchSystem3_def Let_def)
  qed
  note F = lifted_chain_nth [OF generateRoad_lifted [of roadTemplates randG qid kG countG], of m,
      THEN conjunct2, rule_format, of trG]
  from A B C D E F show ?thesis by blast
qed

lemma straight_run:
  "rm_run straight_only zero_rand (rm_initial 0) [AddSegmentAhead, AddSegmentAhead] =
     Inr \<lparr>activeSegments =
            [\<lparr>mesh_position = (0, 0, - 10), mesh_rotation_y = 0, seg_type = ''straight'',
              inPoint = (0, 0, 10), outPoint = (0, 0, - 20), outRotation = 0, worldZ = - 10\<rparr>,
             \<lparr>mesh_position = (0, 0, - 40), mesh_rotation_y = 0, seg_type = ''straight'',
              inPoint = (0, 0, 10), outPoint = (0, 0, - 20), outRotation = 0, worldZ = - 40\<rparr>],
          currentEndPosition = (0, 0, - 60), currentEndDirection = (0, 0, - 1), rm_rnd = 2\<rparr>"
  by (simp add: straight_only_def zero_rand_def rm_initial_def addSegmentAhead_def
      selectRandomSegmentType_def atan2_def applyAxisAngleY_def vadd_def vsub_def
      vx_def vy_def vz_def Let_def)

lemma straight_first:
  "addSegmentAhead straight_only zero_rand (rm_initial 0) =
     Inr \<lparr>activeSegments =
            [\<lparr>mesh_position = (0, 0, - 10), mesh_rotation_y = 0, seg_type = ''straight'',
              inPoint = (0, 0, 10), outPoint = (0, 0, - 20), outRotation = 0, worldZ = - 10\<rparr>],
          currentEndPosition = (0, 0, - 30), currentEndDirection = (0, 0, - 1), rm_rnd = 1\<rparr>"
  by (simp add: straight_only_def zero_rand_def rm_initial_def addSegmentAhead_def
      selectRandomSegmentType_def atan2_def applyAxisAngleY_def vadd_def vsub_def
      vx_def vy_def vz_def Let_def)

lemma system1_first_socket:
  "getSocketTransform (roadPieces (spawnProceduralRoadSystem1 system1_templates zero_rand 0 0 10) ! (1 - 1))
     = Some ((0, 0, 9), 0)"
  "1 < length (roadPieces (spawnProceduralRoadSystem1 system1_templates zero_rand 0 0 10))"
  by code_simp+

lemma spine_junction_piece:
  "8 < length (roadPieces (spineOf system3_templates 0 empty_viewer))"
  "pkey (roadPieces (spineOf system3_templates 0 empty_viewer) ! (8 - 1)) = ''RoadX''"
  "position (placement (roadPieces (spineOf system3_templates 0 empty_viewer) ! 8)) = (0, 0, 32)"
  "quaternion (placement (roadPieces (spineOf system3_templates 0 empty_viewer) ! 8)) = 0"
  by code_simp+

lemma generateRoad_first_socket:
  "getSocketTransform (roadPieces (generateRoad system1_templates zero_rand 0 0 3) ! (1 - 1))
     = Some ((6, 1 / 1000, 6), 1)"
  "1 < length (roadPieces (generateRoad system1_templates zero_rand 0 0 3))"
  by code_simp+

text \<open>
  C3 as stated fails in \<open>generateRoad\<close>: the first of three pieces has its exit socket
  at \<open>(6, 0.001, 6)\<close>, and the second piece has its origin at \<open>(6, 0.002, 6)\<close>, which is
  0.001 away, more than an epsilon of 0.0001.
\<close>

theorem chain_connectivity_counterexample:
  "getSocketTransform (roadPieces (generateRoad system1_templates zero_rand 0 0 3) ! 0)
     = Some ((6, 1 / 1000, 6), 1) \<and>
   position (placement (roadPieces (generateRoad system1_templates zero_rand 0 0 3) ! 1))
     = (6, 2 / 1000, 6) \<and>
   position (placement (roadPieces (generateRoad system1_templates zero_rand 0 0 3) ! 1))
     \<noteq> (6, 1 / 1000, 6) \<and>
   \<not> \<bar>vy (position (placement (roadPieces (generateRoad system1_templates zero_rand 0 0 3) ! 1)))
       - vy (6, 1 / 1000, 6)\<bar> \<le> 1 / 10000"
  by code_simp

theorem chain_connectivity_amended_witness:
  "rm_run straight_only zero_rand (rm_initial 0) [AddSegmentAhead, AddSegmentAhead] =
     Inr \<lparr>activeSegments =
            [\<lparr>mesh_position = (0, 0, - 10), mesh_rotation_y = 0, seg_type = ''straight'',
              inPoint = (0, 0, 10), outPoint = (0, 0, - 20), outRotation = 0, worldZ = - 10\<rparr>,
             \<lparr>mesh_position = (0, 0, - 40), mesh_rotation_y = 0, seg_type = ''straight'',
              inPoint = (0, 0, 10), outPoint = (0, 0, - 20), outRotation = 0, worldZ = - 40\<rparr>],
          currentEndPosition = (0, 0, - 60), currentEndDirection = (0, 0, - 1), rm_rnd = 2\<rparr> \<and>
   entry_point \<lparr>mesh_position = (0, 0, - 40), mesh_rotation_y = 0, seg_type = ''straight'',
              inPoint = (0, 0, 10), outPoint = (0, 0, - 20), outRotation = 0, worldZ = - 40\<rparr>
     = exit_point \<lparr>mesh_position = (0, 0, - 10), mesh_rotation_y = 0, seg_type = ''straight'',
              inPoint = (0, 0, 10), outPoint = (0, 0, - 20), outRotation = 0, worldZ = - 10\<rparr> \<and>
   (\<exists>stb s. addSegmentAhead straight_only zero_rand (rm_initial 0) = Inr stb \<and>
        activeSegments stb = [s] \<and>
        mesh_position s = vsub (0, 0, 0) (applyAxisAngleY (mesh_rotation_y s) (inPoint s)) \<and>
        entry_point s = (0, 0, 0) \<and> currentEndPosition stb = exit_point s) \<and>
   getSocketTransform (roadPieces (spawnProceduralRoadSystem1 system1_templates zero_rand 0 0 10) ! (1 - 1))
     = Some ((0, 0, 9), 0) \<and>
   position (placement (roadPieces (spawnProceduralRoadSystem1 system1_templates zero_rand 0 0 10) ! 1))
     = (0, 0, 9) \<and>
   pkey (roadPieces (spineOf system3_templates 0 empty_viewer) ! (8 - 1)) = ''RoadX'' \<and>
   getSocketTransform3 (roadPieces (spineOf system3_templates 0 empty_viewer) ! (8 - 1)) ''socket_out''
     = Some ((0, 0, 32), 0) \<and>
   getSocketTransform (roadPieces (generateRoad system1_templates zero_rand 0 0 3) ! (1 - 1))
     = Some ((6, 1 / 1000, 6), 1) \<and>
   position (placement (roadPieces (generateRoad system1_templates zero_rand 0 0 3) ! 1))
     = (6, 1 / 1000 + 1 / 1000, 6) \<and>
   quaternion (placement (roadPieces (generateRoad system1_templates zero_rand 0 0 3) ! 1)) = 1"
proof -
  let ?st = "\<lparr>activeSegments =
            [\<lparr>mesh_position = (0, 0, - 10), mesh_rotation_y = 0, seg_type = ''straight'',
              inPoint = (0, 0, 10), outPoint = (0, 0, - 20), outRotation = 0, worldZ = - 10\<rparr>,
             \<lparr>mesh_position = (0, 0, - 40), mesh_rotation_y = 0, seg_type = ''straight'',
              inPoint = (0, 0, 10), outPoint = (0, 0, - 20), outRotation = 0, worldZ = - 40\<rparr>],
          currentEndPosition = (0, 0, - 60), currentEndDirection = (0, 0, - 1), rm_rnd = 2\<rparr>"
  let ?stb = "\<lparr>activeSegments =
            [\<lparr>mesh_position = (0, 0, - 10), mesh_rotation_y = 0, seg_type = ''straight'',
              inPoint = (0, 0, 10), outPoint = (0, 0, - 20), outRotation = 0, worldZ = - 10\<rparr>],
          currentEndPosition = (0, 0, - 30), currentEndDirection = (0, 0, - 1), rm_rnd = 1\<rparr>"
  note T = chain_connectivity_amended [where segmentTemplates = straight_only and rand = zero_rand
      and ?k0.0 = 0 and ops = "[AddSegmentAhead, AddSegmentAhead]" and st = ?st and i = 1
      and sta = "rm_initial 0" and stb = ?stb
      and j = 1 and templates = system1_templates and randS = zero_rand and qid = 0 and kS = 0
      and count = 10 and tr = "((0, 0, 9), 0)"
      and l = 8 and spineTemplates = system3_templates and v = empty_viewer
      and m = 1 and roadTemplates = system1_templates and randG = zero_rand and kG = 0
      and countG = 3 and trG = "((6, 1 / 1000, 6), 1)"]
  have a: "entry_point (activeSegments ?st ! 1) = exit_point (activeSegments ?st ! (1 - 1))"
    using T [THEN conjunct1] straight_run by simp
  have cep: "currentEndPosition (rm_initial 0) = (0, 0, 0)" "activeSegments (rm_initial 0) = []"
    by (simp_all add: rm_initial_def)
  from T [THEN conjunct2, THEN conjunct1, rule_format, OF straight_first] obtain s where
    "activeSegments ?stb = activeSegments (rm_initial 0) @ [s]"
    "mesh_position s = vsub (currentEndPosition (rm_initial 0))
                         (applyAxisAngleY (mesh_rotation_y s) (inPoint s))"
    "entry_point s = currentEndPosition (rm_initial 0)"
    "currentEndPosition ?stb = exit_point s"
    by blast
  then have b: "\<exists>stb s. addSegmentAhead straight_only zero_rand (rm_initial 0) = Inr stb \<and>
        activeSegments stb = [s] \<and>
        mesh_position s = vsub (0, 0, 0) (applyAxisAngleY (mesh_rotation_y s) (inPoint s)) \<and>
        entry_point s = (0, 0, 0) \<and> currentEndPosition stb = exit_point s"
    unfolding cep using straight_first by (intro exI [of _ ?stb] exI [of _ s]) simp
  have c: "position (placement (roadPieces (spawnProceduralRoadSystem1 system1_templates zero_rand 0 0 10) ! 1))
     = (0, 0, 9)"
    using T [THEN conjunct2, THEN conjunct2, THEN conjunct1] system1_first_socket by simp
  have d: "getSocketTransform3 (roadPieces (spineOf system3_templates 0 empty_viewer) ! (8 - 1)) ''socket_out''
     = Some ((0, 0, 32), 0)"
    using T [THEN conjunct2, THEN conjunct2, THEN conjunct2, THEN conjunct1] spine_junction_piece
    by simp
  have e: "position (placement (roadPieces (generateRoad system1_templates zero_rand 0 0 3) ! 1))
     = (6, 1 / 1000 + 1 / 1000, 6) \<and>
   quaternion (placement (roadPieces (generateRoad system1_templates zero_rand 0 0 3) ! 1)) = 1"
    using T [THEN conjunct2, THEN conjunct2, THEN conjunct2, THEN conjunct2, THEN conjunct2]
      generateRoad_first_socket
    by (simp add: vx_def vy_def vz_def)
  from straight_run a b system1_first_socket(1) c spine_junction_piece(2) d
    generateRoad_first_socket(1) e
  show ?thesis by simp
qed

subsection \<open>Occupied cells of retired buildings\<close>

text \<open>
  C1 at a concrete run of \<open>BuildingManager\<close>. \<open>initializeArea\<close> at \<open>z = -36\<close> spawns one
  building for the lot at grid row \<open>z = 14\<close>: it adds the key of that row, \<open>(-1, 0)\<close>, to the
  occupied set and places the building at the jittered \<open>worldZ = 16.5\<close>. \<open>update\<close> with
  the player at \<open>z = -40\<close> retires the building and deletes the key computed from
  \<open>worldZ\<close>, which is \<open>(-1, 1)\<close>: no building is active any more, and the cell \<open>(-1, 0)\<close>
  that the building claimed when it was spawned is still occupied.
\<close>

theorem building_cells_leak:
  "activeBuildings leak_after_init
     = [\<lparr>b_object = 29, b_x = - (27 / 2), b_worldZ = 33 / 2, b_side = ''left''\<rparr>] \<and>
   bm_occupiedCells leak_after_init = {(- 1, 0)} \<and>
   buildingCellKey (- (27 / 2)) 14 = (- 1, 0) \<and>
   buildingCellKey (- (27 / 2)) (33 / 2) = (- 1, 1) \<and>
   activeBuildings leak_after_update = [] \<and>
   bm_occupiedCells leak_after_update = {(- 1, 0)}"
  by code_simp

end
